theory Spec2Isabelle
  imports Main "HOL-Library.Extended_Nat"
begin

section \<open>The syntax tree\<close>

text \<open>
  The passes of \<^verbatim>\<open>pythran/optimizations.py\<close> rewrite Python 2 \<^verbatim>\<open>ast\<close> trees. The
  analyses they consult are tables keyed by node identity (\<^verbatim>\<open>node in self.pure_expressions\<close>,
  \<^verbatim>\<open>node in self.U\<close>), so every expression node carries an identity: \<open>Nid k\<close> for a node
  of the tree the analyses were computed from, \<open>New\<close> for a node object built afterwards
  (by a pass or by \<^verbatim>\<open>deepcopy\<close>), which therefore occurs in no analysis table.

  The node classes modelled are the ones the passes and their doctests mention. Slice nodes
  (\<^verbatim>\<open>ast.Index\<close>) are constructors of the expression type. \<^verbatim>\<open>Call\<close> keeps its function and
  positional arguments. \<open>Deleted\<close> is no node: it stands in the place of a required field
  that \<^verbatim>\<open>delattr\<close> has removed from its node.
\<close>

datatype ident = Nid nat | New

datatype expr_context = Load | Store | Param

datatype operator = Add | Sub | Mult | Div | Pow

datatype pynum = PInt int | PLong int | PFloat string | PComplex string

datatype expr =
    Num ident pynum
  | Str ident string
  | Name ident string expr_context
  | Attribute ident expr string expr_context
  | BinOp ident expr operator expr
  | Call ident expr "expr list"
  | List ident "expr list" expr_context
  | Tuple ident "expr list" expr_context
  | Set ident "expr list"
  | Dict ident "expr list" "expr list"
  | Subscript ident expr expr expr_context
  | Index ident expr
  | Yield ident "expr option"
  | Deleted

datatype metadata = OMPDirective string | OtherMetadata string

datatype stmt =
    FunctionDef string "expr list" "stmt list"
  | Return "expr option"
  | Assign "expr list" expr
  | AugAssign expr operator expr
  | Print "expr list"
  | For expr expr "stmt list" "stmt list" "metadata list"
  | If expr "stmt list" "stmt list"
  | Expr ident expr
  | Pass
  | Break
  | Continue

fun ident_of :: "expr \<Rightarrow> ident" where
  "ident_of (Num i _) = i"
| "ident_of (Str i _) = i"
| "ident_of (Name i _ _) = i"
| "ident_of (Attribute i _ _ _) = i"
| "ident_of (BinOp i _ _ _) = i"
| "ident_of (Call i _ _) = i"
| "ident_of (List i _ _) = i"
| "ident_of (Tuple i _ _) = i"
| "ident_of (Set i _) = i"
| "ident_of (Dict i _ _) = i"
| "ident_of (Subscript i _ _ _) = i"
| "ident_of (Index i _) = i"
| "ident_of (Yield i _) = i"
| "ident_of Deleted = New"

text \<open>Membership of a node in an analysis table, which is a set of node identities.\<close>

fun in_table :: "ident \<Rightarrow> nat set \<Rightarrow> bool" where
  "in_table (Nid k) S = (k \<in> S)"
| "in_table New S = False"

text \<open>\<^verbatim>\<open>a is b\<close> for two expression nodes; a node built after the analyses ran is never
  one of the nodes an analysis recorded.\<close>

fun same_node :: "expr \<Rightarrow> expr \<Rightarrow> bool" where
  "same_node a b = (case ident_of a of Nid k \<Rightarrow> ident_of b = Nid k | New \<Rightarrow> False)"

fun is_Name :: "expr \<Rightarrow> bool" where
  "is_Name (Name _ _ _) = True"
| "is_Name _ = False"

fun is_Yield :: "expr \<Rightarrow> bool" where
  "is_Yield (Yield _ _) = True"
| "is_Yield _ = False"

datatype error =
    KeyError | TypeError | AttributeError | ConversionError | EvalError string

section \<open>Use-def chains\<close>

text \<open>
  \<^verbatim>\<open>self.used_def_chain\<close> is a dictionary from variable names to graphs whose nodes carry
  the attributes \<^verbatim>\<open>'name'\<close> (the \<^verbatim>\<open>ast.Name\<close> occurrence) and \<^verbatim>\<open>'action'\<close>. The passes read
  the node attributes only, never the edges, so a graph is the list \<^verbatim>\<open>udgraph.nodes()\<close> of
  its attributed nodes.
\<close>

datatype action = ActD | ActU | ActUD

datatype udnode = UDNode (ud_name: expr) (ud_action: action)

type_synonym udgraph = "udnode list"

section \<open>Dead code elimination\<close>

text \<open>\<^verbatim>\<open>filter(f, xs)\<close> for a predicate that may raise: the first exception wins.\<close>

fun filter_raising :: "('a \<Rightarrow> error + bool) \<Rightarrow> 'a list \<Rightarrow> error + 'a list" where
  "filter_raising f [] = Inr []"
| "filter_raising f (x # xs) =
     (case f x of
        Inl e \<Rightarrow> Inl e
      | Inr b \<Rightarrow> (case filter_raising f xs of
                    Inl e \<Rightarrow> Inl e
                  | Inr ys \<Rightarrow> Inr (if b then x # ys else ys)))"

text \<open>
  \<^verbatim>\<open>
  def used_target(self, node):
      if isinstance(node, ast.Name):
          udc = self.used_def_chain[node.id]
          is_use = lambda x: udc.node[x]['action'] in ("U", "UD")
          use_count = len(filter(is_use, udc.nodes()))
          return use_count != 0
      return True
  \<close>
\<close>

definition is_use :: "udnode \<Rightarrow> bool" where
  "is_use x = (ud_action x = ActU \<or> ud_action x = ActUD)"

fun used_target :: "(string \<rightharpoonup> udgraph) \<Rightarrow> expr \<Rightarrow> error + bool" where
  "used_target used_def_chain (Name i x c) =
     (case used_def_chain x of
        None \<Rightarrow> Inl KeyError
      | Some udc \<Rightarrow> (let use_count = length (filter is_use udc) in Inr (use_count \<noteq> 0)))"
| "used_target used_def_chain node = Inr True"

text \<open>
  \<^verbatim>\<open>
  def visit_Assign(self, node):
      node.targets = filter(self.used_target, node.targets)
      if node.targets:
          return node
      elif node.value in self.pure_expressions:
          return ast.Pass()
      else:
          return ast.Expr(value=node.value)
  \<close>
  The function is given the fields of the \<^verbatim>\<open>Assign\<close> node it is dispatched on.
\<close>

definition dce_visit_Assign ::
  "(string \<rightharpoonup> udgraph) \<Rightarrow> nat set \<Rightarrow> expr list \<Rightarrow> expr \<Rightarrow> error + stmt" where
  "dce_visit_Assign used_def_chain pure_expressions targets val =
     (case filter_raising (used_target used_def_chain) targets of
        Inl e \<Rightarrow> Inl e
      | Inr targets' \<Rightarrow>
          if targets' \<noteq> [] then Inr (Assign targets' val)
          else if in_table (ident_of val) pure_expressions then Inr Pass
          else Inr (Expr New val))"

text \<open>
  \<^verbatim>\<open>
  def visit_Expr(self, node):
      if (node in self.pure_expressions and
              not isinstance(node.value, ast.Yield)):
          return ast.Pass()
      return node
  \<close>
\<close>

definition dce_visit_Expr :: "nat set \<Rightarrow> ident \<Rightarrow> expr \<Rightarrow> stmt" where
  "dce_visit_Expr pure_expressions i val =
     (if in_table i pure_expressions \<and> \<not> is_Yield val then Pass else Expr i val)"


text \<open>The claim's own words for a target that is dropped: a name whose use-def chain has
  no occurrence tagged \<^verbatim>\<open>U\<close> or \<^verbatim>\<open>UD\<close>.\<close>

definition dead_target :: "(string \<rightharpoonup> udgraph) \<Rightarrow> expr \<Rightarrow> bool" where
  "dead_target used_def_chain t =
     (case t of
        Name i x c \<Rightarrow>
          (case used_def_chain x of
             None \<Rightarrow> False
           | Some udc \<Rightarrow>
               count_list (map ud_action udc) ActU + count_list (map ud_action udc) ActUD = 0)
      | _ \<Rightarrow> False)"

text \<open>A name target without an entry in the dictionary makes the lookup raise.\<close>

definition chain_missing :: "(string \<rightharpoonup> udgraph) \<Rightarrow> expr \<Rightarrow> bool" where
  "chain_missing used_def_chain t =
     (case t of Name i x c \<Rightarrow> used_def_chain x = None | _ \<Rightarrow> False)"

section \<open>Constant folding\<close>

text \<open>
  The values \<^verbatim>\<open>eval\<close> can return, by the kinds \<^verbatim>\<open>to_ast\<close> tells apart. A float or complex
  number is carried by its \<^verbatim>\<open>repr\<close>; a set is the list of its elements in iteration order; a
  dictionary is the list \<^verbatim>\<open>iterkeys()\<close> and the list \<^verbatim>\<open>itervalues()\<close>, of equal length;
  \<open>VOther\<close> is a value of any other type, named.
\<close>

datatype pyvalue =
    VInt int | VLong int | VFloat string | VComplex string | VBool bool | VStr string
  | VList "pyvalue list" | VTuple "pyvalue list" | VSet "pyvalue list"
  | VDict "pyvalue list" "pyvalue list"
  | VOther string

definition MAX_LEN :: nat where
  "MAX_LEN = 2 ^ 8"

text \<open>\<^verbatim>\<open>map(f, xs)\<close> for an \<open>f\<close> that may raise, given the list of outcomes.\<close>

fun collect :: "(error + 'a) list \<Rightarrow> error + 'a list" where
  "collect [] = Inr []"
| "collect (r # rs) =
     (case r of
        Inl e \<Rightarrow> Inl e
      | Inr y \<Rightarrow> (case collect rs of Inl e \<Rightarrow> Inl e | Inr ys \<Rightarrow> Inr (y # ys)))"

text \<open>
  \<^verbatim>\<open>
  def to_ast(self, value):
      if (type(value) in (int, long, float, complex)):
          return ast.Num(value)
      elif isinstance(value, bool):
          return ast.Attribute(ast.Name('__builtin__', ast.Load()),
                               'True' if value else 'False', ast.Load())
      elif isinstance(value, str):
          return ast.Str(value)
      elif isinstance(value, list) and len(value) < ConstantFolding.MAX_LEN:
          return ast.List(map(self.to_ast, value), ast.Load())
      elif isinstance(value, tuple) and len(value) < ConstantFolding.MAX_LEN:
          return ast.Tuple(map(self.to_ast, value), ast.Load())
      elif isinstance(value, set) and len(value) < ConstantFolding.MAX_LEN:
          return ast.Set(map(self.to_ast, value))
      elif isinstance(value, dict) and len(value) < ConstantFolding.MAX_LEN:
          keys = map(self.to_ast, value.iterkeys())
          values = map(self.to_ast, value.itervalues())
          return ast.Dict(keys, values)
      else:
          raise ConstantFolding.ConversionError()
  \<close>
\<close>

fun to_ast :: "pyvalue \<Rightarrow> error + expr" where
  "to_ast (VInt n) = Inr (Num New (PInt n))"
| "to_ast (VLong n) = Inr (Num New (PLong n))"
| "to_ast (VFloat x) = Inr (Num New (PFloat x))"
| "to_ast (VComplex x) = Inr (Num New (PComplex x))"
| "to_ast (VBool b) =
     Inr (Attribute New (Name New ''__builtin__'' Load) (if b then ''True'' else ''False'') Load)"
| "to_ast (VStr s) = Inr (Str New s)"
| "to_ast (VList vs) =
     (if length vs < MAX_LEN then
        (case collect (map to_ast vs) of
           Inl e \<Rightarrow> Inl e
         | Inr elts \<Rightarrow> Inr (List New elts Load))
      else Inl ConversionError)"
| "to_ast (VTuple vs) =
     (if length vs < MAX_LEN then
        (case collect (map to_ast vs) of
           Inl e \<Rightarrow> Inl e
         | Inr elts \<Rightarrow> Inr (Tuple New elts Load))
      else Inl ConversionError)"
| "to_ast (VSet vs) =
     (if length vs < MAX_LEN then
        (case collect (map to_ast vs) of
           Inl e \<Rightarrow> Inl e
         | Inr elts \<Rightarrow> Inr (Set New elts))
      else Inl ConversionError)"
| "to_ast (VDict ks vs) =
     (if length ks < MAX_LEN then
        (case collect (map to_ast ks) of
           Inl e \<Rightarrow> Inl e
         | Inr keys \<Rightarrow>
             (case collect (map to_ast vs) of
                Inl e \<Rightarrow> Inl e
              | Inr vals \<Rightarrow> Inr (Dict New keys vals)))
      else Inl ConversionError)"
| "to_ast (VOther k) = Inl ConversionError"

fun is_Index :: "expr \<Rightarrow> bool" where
  "is_Index (Index _ _) = True"
| "is_Index _ = False"

text \<open>
  The body of the \<^verbatim>\<open>try\<close> block of \<^verbatim>\<open>ConstantFolding.generic_visit\<close>. The interpreter call
  \<^verbatim>\<open>eval(compile(fake_node, ...), self.env)\<close> is the parameter \<open>eval\<close>: it returns a value or
  raises.
  \<^verbatim>\<open>
  fake_node = ast.Expression(
      node.value if isinstance(node, ast.Index) else node)
  code = compile(fake_node, '<constant folding>', 'eval')
  value = eval(code, self.env)
  new_node = self.to_ast(value)
  if (isinstance(node, ast.Index)
          and not isinstance(new_node, ast.Index)):
      new_node = ast.Index(new_node)
  return new_node
  \<close>
\<close>

fun expression_of :: "expr \<Rightarrow> expr" where
  "expression_of (Index i v) = v"
| "expression_of node = node"

definition fold_attempt :: "(expr \<Rightarrow> error + pyvalue) \<Rightarrow> expr \<Rightarrow> error + expr" where
  "fold_attempt eval node =
     (let fake_node = expression_of node in
      case eval fake_node of
        Inl e \<Rightarrow> Inl e
      | Inr val \<Rightarrow>
          (case to_ast val of
             Inl e \<Rightarrow> Inl e
           | Inr new_node \<Rightarrow>
               Inr (if is_Index node \<and> \<not> is_Index new_node then Index New new_node
                    else new_node)))"

text \<open>
  \<^verbatim>\<open>
  def generic_visit(self, node):
      if node in self.constant_expressions:
          try:
              ...
              return new_node
          except Exception:
              return Transformation.generic_visit(self, node)
      else:
          return Transformation.generic_visit(self, node)
  \<close>
  \<open>cf_visit\<close> is this method on expression nodes.
\<close>

text \<open>
  Modelled from the spec: \<^verbatim>\<open>Transformation.generic_visit\<close> belongs to the pass manager,
  which is not among the sources; it is the tree rewriter's traversal, which visits every
  child of the node in field order, puts the result in the child's place and returns the
  node. \<open>cf_generic\<close> is that traversal with \<open>cf_visit\<close> as the visitor.
\<close>

fun cf_visit :: "(expr \<Rightarrow> error + pyvalue) \<Rightarrow> nat set \<Rightarrow> expr \<Rightarrow> expr"
  and cf_generic :: "(expr \<Rightarrow> error + pyvalue) \<Rightarrow> nat set \<Rightarrow> expr \<Rightarrow> expr" where
  "cf_visit eval constant_expressions node =
     (if in_table (ident_of node) constant_expressions then
        (case fold_attempt eval node of
           Inr new_node \<Rightarrow> new_node
         | Inl e \<Rightarrow> cf_generic eval constant_expressions node)
      else cf_generic eval constant_expressions node)"
| "cf_generic eval ce (Num i n) = Num i n"
| "cf_generic eval ce (Str i s) = Str i s"
| "cf_generic eval ce (Name i x c) = Name i x c"
| "cf_generic eval ce (Attribute i v a c) = Attribute i (cf_visit eval ce v) a c"
| "cf_generic eval ce (BinOp i l op r) = BinOp i (cf_visit eval ce l) op (cf_visit eval ce r)"
| "cf_generic eval ce (Call i f args) = Call i (cf_visit eval ce f) (map (cf_visit eval ce) args)"
| "cf_generic eval ce (List i elts c) = List i (map (cf_visit eval ce) elts) c"
| "cf_generic eval ce (Tuple i elts c) = Tuple i (map (cf_visit eval ce) elts) c"
| "cf_generic eval ce (Set i elts) = Set i (map (cf_visit eval ce) elts)"
| "cf_generic eval ce (Dict i ks vs) =
     Dict i (map (cf_visit eval ce) ks) (map (cf_visit eval ce) vs)"
| "cf_generic eval ce (Subscript i v s c) =
     Subscript i (cf_visit eval ce v) (cf_visit eval ce s) c"
| "cf_generic eval ce (Index i v) = Index i (cf_visit eval ce v)"
| "cf_generic eval ce (Yield i v) = Yield i (map_option (cf_visit eval ce) v)"
| "cf_generic eval ce Deleted = Deleted"



section \<open>Full loop unrolling\<close>

text \<open>\<^verbatim>\<open>copy.deepcopy\<close>: the same tree made of new node objects. The metadata list of a
  loop is an attribute of the node and is copied with it.\<close>

fun deepcopy :: "expr \<Rightarrow> expr" where
  "deepcopy (Num i n) = Num New n"
| "deepcopy (Str i s) = Str New s"
| "deepcopy (Name i x c) = Name New x c"
| "deepcopy (Attribute i v a c) = Attribute New (deepcopy v) a c"
| "deepcopy (BinOp i l op r) = BinOp New (deepcopy l) op (deepcopy r)"
| "deepcopy (Call i f args) = Call New (deepcopy f) (map deepcopy args)"
| "deepcopy (List i elts c) = List New (map deepcopy elts) c"
| "deepcopy (Tuple i elts c) = Tuple New (map deepcopy elts) c"
| "deepcopy (Set i elts) = Set New (map deepcopy elts)"
| "deepcopy (Dict i ks vs) = Dict New (map deepcopy ks) (map deepcopy vs)"
| "deepcopy (Subscript i v s c) = Subscript New (deepcopy v) (deepcopy s) c"
| "deepcopy (Index i v) = Index New (deepcopy v)"
| "deepcopy (Yield i v) = Yield New (map_option deepcopy v)"
| "deepcopy Deleted = Deleted"

fun deepcopy_stmt :: "stmt \<Rightarrow> stmt" where
  "deepcopy_stmt (FunctionDef f args body) =
     FunctionDef f (map deepcopy args) (map deepcopy_stmt body)"
| "deepcopy_stmt (Return v) = Return (map_option deepcopy v)"
| "deepcopy_stmt (Assign targets v) = Assign (map deepcopy targets) (deepcopy v)"
| "deepcopy_stmt (AugAssign t op v) = AugAssign (deepcopy t) op (deepcopy v)"
| "deepcopy_stmt (Print vs) = Print (map deepcopy vs)"
| "deepcopy_stmt (For t it body orelse md) =
     For (deepcopy t) (deepcopy it) (map deepcopy_stmt body) (map deepcopy_stmt orelse) md"
| "deepcopy_stmt (If t body orelse) =
     If (deepcopy t) (map deepcopy_stmt body) (map deepcopy_stmt orelse)"
| "deepcopy_stmt (Expr i v) = Expr New (deepcopy v)"
| "deepcopy_stmt Pass = Pass"
| "deepcopy_stmt Break = Break"
| "deepcopy_stmt Continue = Continue"

definition MAX_NODE_COUNT :: nat where
  "MAX_NODE_COUNT = 512"

text \<open>\<^verbatim>\<open>metadata.get(node, OMPDirective)\<close>: the annotations of that class attached to the
  node, a list that is true when it is not empty.\<close>

fun is_OMPDirective :: "metadata \<Rightarrow> bool" where
  "is_OMPDirective (OMPDirective d) = True"
| "is_OMPDirective _ = False"

definition metadata_get_OMPDirective :: "metadata list \<Rightarrow> metadata list" where
  "metadata_get_OMPDirective md = filter is_OMPDirective md"

text \<open>\<^verbatim>\<open>reduce(list.__add__, xss)\<close>, without an initial value: it raises \<^verbatim>\<open>TypeError\<close> on an
  empty sequence.\<close>

fun reduce_add :: "'a list list \<Rightarrow> error + 'a list" where
  "reduce_add [] = Inl TypeError"
| "reduce_add (x # xs) = Inr (foldl (@) x xs)"

text \<open>
  \<^verbatim>\<open>
  def visit_For(self, node):
      # first unroll children if needed or possible
      self.generic_visit(node)

      # if the user added some OpenMP directive, trust him and no unroll
      has_omp = metadata.get(node, OMPDirective)
      # a break or continue in the loop prevents unrolling too
      has_break = any(self.passmanager.gather(HasBreak, n, self.ctx)
                      for n in node.body)
      has_cont = any(self.passmanager.gather(HasContinue, n, self.ctx)
                     for n in node.body)
      # do not unroll too much to prevent code growth
      node_count = self.passmanager.gather(NodeCount, node, self.ctx)

      if type(node.iter) is ast.List:
          isvalid = not(has_omp or has_break or has_cont)
          total_count = node_count * len(node.iter.elts)
          issmall = total_count < LoopFullUnrolling.MAX_NODE_COUNT
          if isvalid and issmall:
              def unroll(elt):
                  return ([ast.Assign([deepcopy(node.target)], elt)]
                          + deepcopy(node.body))
              return reduce(list.__add__, map(unroll, node.iter.elts))
      return node
  \<close>
  The analyses \<^verbatim>\<open>NodeCount\<close>, \<^verbatim>\<open>HasBreak\<close> and \<^verbatim>\<open>HasContinue\<close> are not among the sources;
  \<^verbatim>\<open>gather\<close> runs them on the node as it is now, so they are parameters: functions of the
  current subtree. \<open>visit_For_unroll\<close> is the part of \<^verbatim>\<open>visit_For\<close> after the children have
  been visited, on the fields of the node as that visit left them. The result is the list of
  statements that takes the loop's place: the node alone when \<^verbatim>\<open>visit_For\<close> returns it.
\<close>

definition unroll :: "expr \<Rightarrow> stmt list \<Rightarrow> expr \<Rightarrow> stmt list" where
  "unroll target body elt = [Assign [deepcopy target] elt] @ map deepcopy_stmt body"

fun elts_of_List :: "expr \<Rightarrow> expr list option" where
  "elts_of_List (List i elts c) = Some elts"
| "elts_of_List _ = None"

definition visit_For_unroll ::
  "(stmt \<Rightarrow> nat) \<Rightarrow> (stmt \<Rightarrow> bool) \<Rightarrow> (stmt \<Rightarrow> bool) \<Rightarrow>
   expr \<Rightarrow> expr \<Rightarrow> stmt list \<Rightarrow> stmt list \<Rightarrow> metadata list \<Rightarrow> error + stmt list" where
  "visit_For_unroll NodeCount HasBreak HasContinue target iter body orelse md =
     (let node = For target iter body orelse md;
          has_omp = metadata_get_OMPDirective md;
          has_break = list_ex HasBreak body;
          has_cont = list_ex HasContinue body;
          node_count = NodeCount node
      in case elts_of_List iter of
           Some elts \<Rightarrow>
             (let isvalid = \<not> (has_omp \<noteq> [] \<or> has_break \<or> has_cont);
                  total_count = node_count * length elts;
                  issmall = total_count < MAX_NODE_COUNT
              in if isvalid \<and> issmall then reduce_add (map (unroll target body) elts)
                 else Inr [node])
         | None \<Rightarrow> Inr [node])"

text \<open>The results of visiting the statements of a list, spliced into one list; the first
  exception ends the traversal.\<close>

definition splice_stmts :: "(error + stmt list) list \<Rightarrow> error + stmt list" where
  "splice_stmts rs = (case collect rs of Inl e \<Rightarrow> Inl e | Inr xss \<Rightarrow> Inr (concat xss))"

text \<open>
  Modelled from the spec: the base traversal \<^verbatim>\<open>generic_visit\<close> of the pass manager's
  \<^verbatim>\<open>Transformation\<close> (not among the sources) visits the children in field order and, in a
  statement list, puts the statements a visit returns in the place of the visited one. The
  pass has a \<^verbatim>\<open>visit_For\<close> only, and no expression contains a loop statement, so
  expressions come back as they are. \<open>lfu_visit\<close> is \<^verbatim>\<open>LoopFullUnrolling.visit\<close> on a
  statement: \<^verbatim>\<open>visit_For\<close> on a loop, the base traversal on every other statement.
\<close>

fun lfu_visit ::
  "(stmt \<Rightarrow> nat) \<Rightarrow> (stmt \<Rightarrow> bool) \<Rightarrow> (stmt \<Rightarrow> bool) \<Rightarrow> stmt \<Rightarrow> error + stmt list" where
  "lfu_visit NodeCount HasBreak HasContinue (For target iter body orelse md) =
     (case splice_stmts (map (lfu_visit NodeCount HasBreak HasContinue) body) of
        Inl e \<Rightarrow> Inl e
      | Inr body' \<Rightarrow>
          (case splice_stmts (map (lfu_visit NodeCount HasBreak HasContinue) orelse) of
             Inl e \<Rightarrow> Inl e
           | Inr orelse' \<Rightarrow>
               visit_For_unroll NodeCount HasBreak HasContinue target iter body' orelse' md))"
| "lfu_visit NodeCount HasBreak HasContinue (If test body orelse) =
     (case splice_stmts (map (lfu_visit NodeCount HasBreak HasContinue) body) of
        Inl e \<Rightarrow> Inl e
      | Inr body' \<Rightarrow>
          (case splice_stmts (map (lfu_visit NodeCount HasBreak HasContinue) orelse) of
             Inl e \<Rightarrow> Inl e
           | Inr orelse' \<Rightarrow> Inr [If test body' orelse']))"
| "lfu_visit NodeCount HasBreak HasContinue (FunctionDef f args body) =
     (case splice_stmts (map (lfu_visit NodeCount HasBreak HasContinue) body) of
        Inl e \<Rightarrow> Inl e
      | Inr body' \<Rightarrow> Inr [FunctionDef f args body'])"
| "lfu_visit NodeCount HasBreak HasContinue node = Inr [node]"

text \<open>
  Modelled from the spec: the analyses \<^verbatim>\<open>NodeCount\<close> ("node-count metric"), \<^verbatim>\<open>HasBreak\<close> and
  \<^verbatim>\<open>HasContinue\<close> ("the body contains a break or continue construct") are missing from the
  sources. These instances count the nodes of a subtree and search it for a \<^verbatim>\<open>Break\<close> or a
  \<^verbatim>\<open>Continue\<close> statement; they instantiate the parameters in the examples.
\<close>

fun node_count_expr :: "expr \<Rightarrow> nat" where
  "node_count_expr (Num i n) = 1"
| "node_count_expr (Str i s) = 1"
| "node_count_expr (Name i x c) = 1"
| "node_count_expr (Attribute i v a c) = 1 + node_count_expr v"
| "node_count_expr (BinOp i l op r) = 1 + node_count_expr l + node_count_expr r"
| "node_count_expr (Call i f args) = 1 + node_count_expr f + sum_list (map node_count_expr args)"
| "node_count_expr (List i elts c) = 1 + sum_list (map node_count_expr elts)"
| "node_count_expr (Tuple i elts c) = 1 + sum_list (map node_count_expr elts)"
| "node_count_expr (Set i elts) = 1 + sum_list (map node_count_expr elts)"
| "node_count_expr (Dict i ks vs) =
     1 + sum_list (map node_count_expr ks) + sum_list (map node_count_expr vs)"
| "node_count_expr (Subscript i v s c) = 1 + node_count_expr v + node_count_expr s"
| "node_count_expr (Index i v) = 1 + node_count_expr v"
| "node_count_expr (Yield i v) = 1 + (case v of None \<Rightarrow> 0 | Some e \<Rightarrow> node_count_expr e)"
| "node_count_expr Deleted = 0"

fun node_count :: "stmt \<Rightarrow> nat" where
  "node_count (FunctionDef f args body) =
     1 + sum_list (map node_count_expr args) + sum_list (map node_count body)"
| "node_count (Return v) = 1 + (case v of None \<Rightarrow> 0 | Some e \<Rightarrow> node_count_expr e)"
| "node_count (Assign targets v) = 1 + sum_list (map node_count_expr targets) + node_count_expr v"
| "node_count (AugAssign t op v) = 1 + node_count_expr t + node_count_expr v"
| "node_count (Print vs) = 1 + sum_list (map node_count_expr vs)"
| "node_count (For t it body orelse md) =
     1 + node_count_expr t + node_count_expr it
       + sum_list (map node_count body) + sum_list (map node_count orelse)"
| "node_count (If t body orelse) =
     1 + node_count_expr t + sum_list (map node_count body) + sum_list (map node_count orelse)"
| "node_count (Expr i v) = 1 + node_count_expr v"
| "node_count Pass = 1"
| "node_count Break = 1"
| "node_count Continue = 1"

fun has_break :: "stmt \<Rightarrow> bool" where
  "has_break Break = True"
| "has_break (For t it body orelse md) = (list_ex has_break body \<or> list_ex has_break orelse)"
| "has_break (If t body orelse) = (list_ex has_break body \<or> list_ex has_break orelse)"
| "has_break (FunctionDef f args body) = list_ex has_break body"
| "has_break _ = False"

fun has_continue :: "stmt \<Rightarrow> bool" where
  "has_continue Continue = True"
| "has_continue (For t it body orelse md) =
     (list_ex has_continue body \<or> list_ex has_continue orelse)"
| "has_continue (If t body orelse) = (list_ex has_continue body \<or> list_ex has_continue orelse)"
| "has_continue (FunctionDef f args body) = list_ex has_continue body"
| "has_continue _ = False"

section \<open>Forward substitution\<close>

text \<open>
  Modelled from the spec: the base traversal \<^verbatim>\<open>generic_visit\<close> of \<^verbatim>\<open>Transformation\<close> (pass
  manager, not among the sources), as the standard tree rewriter does it. A visit that
  returns \<^verbatim>\<open>None\<close> removes the child and the traversal goes on: from a list the child is
  dropped (\<open>present\<close>), an optional field becomes \<^verbatim>\<open>None\<close>, and a required field is deleted
  from the node with \<^verbatim>\<open>delattr\<close> (\<open>required\<close>). A field that is missing already is skipped.
\<close>

fun required :: "expr option \<Rightarrow> expr" where
  "required None = Deleted"
| "required (Some x) = x"

fun present :: "expr option list \<Rightarrow> expr list" where
  "present [] = []"
| "present (None # rs) = present rs"
| "present (Some x # rs) = x # present rs"

text \<open>
  \<^verbatim>\<open>
  def visit_Name(self, node):
      if node in self.U:
          return self.capture
      return node
  \<close>
  \<open>lr_visit\<close> is \<^verbatim>\<open>_LazyRemover.visit\<close> on expressions: \<^verbatim>\<open>visit_Name\<close> on a name and the base
  traversal on every other node. \<^verbatim>\<open>self.capture\<close> is \<^verbatim>\<open>None\<close> until an assignment to \<open>D\<close>
  has been visited.
\<close>

fun lr_visit :: "expr list \<Rightarrow> expr option \<Rightarrow> expr \<Rightarrow> expr option" where
  "lr_visit U capture (Name i x c) =
     (if list_ex (same_node (Name i x c)) U then capture else Some (Name i x c))"
| "lr_visit U capture (Num i n) = Some (Num i n)"
| "lr_visit U capture (Str i s) = Some (Str i s)"
| "lr_visit U capture (Attribute i v a c) =
     Some (Attribute i (required (lr_visit U capture v)) a c)"
| "lr_visit U capture (BinOp i l op r) =
     Some (BinOp i (required (lr_visit U capture l)) op (required (lr_visit U capture r)))"
| "lr_visit U capture (Call i f args) =
     Some (Call i (required (lr_visit U capture f)) (present (map (lr_visit U capture) args)))"
| "lr_visit U capture (List i elts c) =
     Some (List i (present (map (lr_visit U capture) elts)) c)"
| "lr_visit U capture (Tuple i elts c) =
     Some (Tuple i (present (map (lr_visit U capture) elts)) c)"
| "lr_visit U capture (Set i elts) = Some (Set i (present (map (lr_visit U capture) elts)))"
| "lr_visit U capture (Dict i ks vs) =
     Some (Dict i (present (map (lr_visit U capture) ks))
       (present (map (lr_visit U capture) vs)))"
| "lr_visit U capture (Subscript i v s c) =
     Some (Subscript i (required (lr_visit U capture v)) (required (lr_visit U capture s)) c)"
| "lr_visit U capture (Index i v) = Some (Index i (required (lr_visit U capture v)))"
| "lr_visit U capture (Yield i None) = Some (Yield i None)"
| "lr_visit U capture (Yield i (Some v)) = Some (Yield i (lr_visit U capture v))"
| "lr_visit U capture Deleted = Some Deleted"

text \<open>
  \<^verbatim>\<open>
  def visit_Assign(self, node):
      self.generic_visit(node)
      if self.D in node.targets:
          self.capture = node.value
          if len(node.targets) == 1:
              return ast.Pass()
          node.targets.remove(self.D)
      return node
  \<close>
  \<open>lr_visit_Assign\<close> is the part after \<^verbatim>\<open>generic_visit\<close>, on the visited fields; it returns
  the statement and the new \<^verbatim>\<open>self.capture\<close>. Reading \<^verbatim>\<open>node.value\<close> raises
  \<^verbatim>\<open>AttributeError\<close> when the traversal has deleted that field. \<open>remove_node\<close> is
  \<^verbatim>\<open>list.remove\<close>, which deletes the first occurrence.
\<close>

fun remove_node :: "expr \<Rightarrow> expr list \<Rightarrow> expr list" where
  "remove_node d [] = []"
| "remove_node d (t # ts) = (if same_node t d then ts else t # remove_node d ts)"

definition lr_visit_Assign ::
  "expr \<Rightarrow> expr option \<Rightarrow> expr list \<Rightarrow> expr \<Rightarrow> error + stmt \<times> expr option" where
  "lr_visit_Assign D capture targets val =
     (if list_ex (\<lambda>t. same_node t D) targets then
        (if val = Deleted then Inl AttributeError
         else if length targets = 1 then Inr (Pass, Some val)
         else Inr (Assign (remove_node D targets) val, Some val))
      else Inr (Assign targets val, capture))"

text \<open>\<^verbatim>\<open>_LazyRemover.visit\<close> on statements and statement lists, threading \<^verbatim>\<open>self.capture\<close>
  in traversal order.\<close>

fun lr_stmt :: "expr list \<Rightarrow> expr \<Rightarrow> expr option \<Rightarrow> stmt \<Rightarrow> error + stmt \<times> expr option"
  and lr_stmts ::
    "expr list \<Rightarrow> expr \<Rightarrow> expr option \<Rightarrow> stmt list \<Rightarrow> error + stmt list \<times> expr option" where
  "lr_stmts U D capture [] = Inr ([], capture)"
| "lr_stmts U D capture (s # ss) =
     (case lr_stmt U D capture s of
        Inl e \<Rightarrow> Inl e
      | Inr (s', capture') \<Rightarrow>
          (case lr_stmts U D capture' ss of
             Inl e \<Rightarrow> Inl e
           | Inr (ss', capture'') \<Rightarrow> Inr (s' # ss', capture'')))"
| "lr_stmt U D capture (Assign targets val) =
     lr_visit_Assign D capture (present (map (lr_visit U capture) targets))
       (required (lr_visit U capture val))"
| "lr_stmt U D capture (FunctionDef f args body) =
     (case lr_stmts U D capture body of
        Inl e \<Rightarrow> Inl e
      | Inr (body', capture') \<Rightarrow>
          Inr (FunctionDef f (present (map (lr_visit U capture) args)) body', capture'))"
| "lr_stmt U D capture (Return None) = Inr (Return None, capture)"
| "lr_stmt U D capture (Return (Some v)) = Inr (Return (lr_visit U capture v), capture)"
| "lr_stmt U D capture (AugAssign t op v) =
     Inr (AugAssign (required (lr_visit U capture t)) op (required (lr_visit U capture v)),
          capture)"
| "lr_stmt U D capture (Print vs) = Inr (Print (present (map (lr_visit U capture) vs)), capture)"
| "lr_stmt U D capture (For t it body orelse md) =
     (case lr_stmts U D capture body of
        Inl e \<Rightarrow> Inl e
      | Inr (body', capture') \<Rightarrow>
          (case lr_stmts U D capture' orelse of
             Inl e \<Rightarrow> Inl e
           | Inr (orelse', capture'') \<Rightarrow>
               Inr (For (required (lr_visit U capture t)) (required (lr_visit U capture it))
                      body' orelse' md, capture'')))"
| "lr_stmt U D capture (If t body orelse) =
     (case lr_stmts U D capture body of
        Inl e \<Rightarrow> Inl e
      | Inr (body', capture') \<Rightarrow>
          (case lr_stmts U D capture' orelse of
             Inl e \<Rightarrow> Inl e
           | Inr (orelse', capture'') \<Rightarrow>
               Inr (If (required (lr_visit U capture t)) body' orelse', capture'')))"
| "lr_stmt U D capture (Expr i v) = Inr (Expr i (required (lr_visit U capture v)), capture)"
| "lr_stmt U D capture Pass = Inr (Pass, capture)"
| "lr_stmt U D capture Break = Inr (Break, capture)"
| "lr_stmt U D capture Continue = Inr (Continue, capture)"

text \<open>
  \<^verbatim>\<open>
  def visit_FunctionDef(self, node):
      for name, udgraph in self.used_def_chain.iteritems():
          if ((len(udgraph.nodes()) == 2 and
               self.lazyness_analysis[name] == 1) or
              (self.lazyness_analysis[name] != float('inf') and
               name in self.literals)):
              def get(action):
                  return [udgraph.node[n]['name'] for n in udgraph.nodes()
                          if udgraph.node[n]['action'] == action]
              U = get("U")
              D = get("D")
              if (len(D) == 1 and len(get("UD")) == 0 and
                      not isinstance(D[0].ctx, ast.Param)):
                  node = _LazyRemover(self.ctx, U, D[0]).visit(node)
      return node
  \<close>
  The laziness of a variable is a number or \<^verbatim>\<open>float('inf')\<close>: an \<open>enat\<close>. \<open>fs_step\<close> is one
  iteration of the loop; \<open>fs_visit_FunctionDef\<close> runs it over the dictionary's items in
  iteration order.
\<close>

definition get :: "udgraph \<Rightarrow> action \<Rightarrow> expr list" where
  "get udgraph act = map ud_name (filter (\<lambda>n. ud_action n = act) udgraph)"

fun ctx_of :: "expr \<Rightarrow> error + expr_context" where
  "ctx_of (Name i x c) = Inr c"
| "ctx_of (Attribute i v a c) = Inr c"
| "ctx_of (Subscript i v s c) = Inr c"
| "ctx_of (List i elts c) = Inr c"
| "ctx_of (Tuple i elts c) = Inr c"
| "ctx_of _ = Inl AttributeError"

definition fs_step ::
  "(string \<rightharpoonup> enat) \<Rightarrow> string set \<Rightarrow> string \<times> udgraph \<Rightarrow> stmt \<Rightarrow> error + stmt" where
  "fs_step lazyness_analysis literals item node =
     (case item of (name, udgraph) \<Rightarrow>
        (case lazyness_analysis name of
           None \<Rightarrow> Inl KeyError
         | Some lz \<Rightarrow>
             if (length udgraph = 2 \<and> lz = 1) \<or> (lz \<noteq> \<infinity> \<and> name \<in> literals) then
               (let U = get udgraph ActU; D = get udgraph ActD in
                if length D = 1 \<and> length (get udgraph ActUD) = 0 then
                  (case ctx_of (D ! 0) of
                     Inl e \<Rightarrow> Inl e
                   | Inr c \<Rightarrow>
                       if c \<noteq> Param then
                         (case lr_stmt U (D ! 0) None node of
                            Inl e \<Rightarrow> Inl e
                          | Inr (node', capture) \<Rightarrow> Inr node')
                       else Inr node)
                else Inr node)
             else Inr node))"

fun fs_visit_FunctionDef ::
  "(string \<times> udgraph) list \<Rightarrow> (string \<rightharpoonup> enat) \<Rightarrow> string set \<Rightarrow> stmt \<Rightarrow> error + stmt" where
  "fs_visit_FunctionDef [] lazyness_analysis literals node = Inr node"
| "fs_visit_FunctionDef (item # items) lazyness_analysis literals node =
     (case fs_step lazyness_analysis literals item node of
        Inl e \<Rightarrow> Inl e
      | Inr node' \<Rightarrow> fs_visit_FunctionDef items lazyness_analysis literals node')"

section \<open>Notions used to state the properties\<close>

text \<open>The number of elements of a container value, as \<^verbatim>\<open>len(value)\<close> gives it, and the
  containers that are not strictly below the cap.\<close>

fun container_size :: "pyvalue \<Rightarrow> nat option" where
  "container_size (VList vs) = Some (length vs)"
| "container_size (VTuple vs) = Some (length vs)"
| "container_size (VSet vs) = Some (length vs)"
| "container_size (VDict ks vs) = Some (length ks)"
| "container_size _ = None"

definition over_cap :: "pyvalue \<Rightarrow> bool" where
  "over_cap v = (case container_size v of None \<Rightarrow> False | Some n \<Rightarrow> \<not> n < MAX_LEN)"

text \<open>The number of literal container nodes of a tree that have \<open>MAX_LEN\<close> elements or more.\<close>

fun oversized_nodes :: "expr \<Rightarrow> nat" where
  "oversized_nodes (Num i n) = 0"
| "oversized_nodes (Str i s) = 0"
| "oversized_nodes (Name i x c) = 0"
| "oversized_nodes (Attribute i v a c) = oversized_nodes v"
| "oversized_nodes (BinOp i l op r) = oversized_nodes l + oversized_nodes r"
| "oversized_nodes (Call i f args) = oversized_nodes f + sum_list (map oversized_nodes args)"
| "oversized_nodes (List i elts c) =
     (if length elts < MAX_LEN then 0 else 1) + sum_list (map oversized_nodes elts)"
| "oversized_nodes (Tuple i elts c) =
     (if length elts < MAX_LEN then 0 else 1) + sum_list (map oversized_nodes elts)"
| "oversized_nodes (Set i elts) =
     (if length elts < MAX_LEN then 0 else 1) + sum_list (map oversized_nodes elts)"
| "oversized_nodes (Dict i ks vs) =
     (if length ks < MAX_LEN then 0 else 1)
       + sum_list (map oversized_nodes ks) + sum_list (map oversized_nodes vs)"
| "oversized_nodes (Subscript i v s c) = oversized_nodes v + oversized_nodes s"
| "oversized_nodes (Index i v) = oversized_nodes v"
| "oversized_nodes (Yield i v) = (case v of None \<Rightarrow> 0 | Some e \<Rightarrow> oversized_nodes e)"
| "oversized_nodes Deleted = 0"

text \<open>The nodes of a subtree: the node itself and all its descendants.\<close>

fun subnodes :: "expr \<Rightarrow> expr list" where
  "subnodes (Num i n) = [Num i n]"
| "subnodes (Str i s) = [Str i s]"
| "subnodes (Name i x c) = [Name i x c]"
| "subnodes (Attribute i v a c) = Attribute i v a c # subnodes v"
| "subnodes (BinOp i l op r) = BinOp i l op r # subnodes l @ subnodes r"
| "subnodes (Call i f args) = Call i f args # subnodes f @ concat (map subnodes args)"
| "subnodes (List i elts c) = List i elts c # concat (map subnodes elts)"
| "subnodes (Tuple i elts c) = Tuple i elts c # concat (map subnodes elts)"
| "subnodes (Set i elts) = Set i elts # concat (map subnodes elts)"
| "subnodes (Dict i ks vs) =
     Dict i ks vs # concat (map subnodes ks) @ concat (map subnodes vs)"
| "subnodes (Subscript i v s c) = Subscript i v s c # subnodes v @ subnodes s"
| "subnodes (Index i v) = Index i v # subnodes v"
| "subnodes (Yield i v) = Yield i v # (case v of None \<Rightarrow> [] | Some e \<Rightarrow> subnodes e)"
| "subnodes Deleted = [Deleted]"

text \<open>
  The interpreter on the fragment the examples need: integer literals, list displays, \<^verbatim>\<open>+\<close>
  and \<^verbatim>\<open>/\<close> between integers, where \<^verbatim>\<open>/\<close> by zero raises \<^verbatim>\<open>ZeroDivisionError\<close>, and the
  repetition \<^verbatim>\<open>*\<close> of a list by an integer. Every other expression is outside the fragment
  (and so are integers beyond \<^verbatim>\<open>sys.maxint\<close>, where Python switches to \<^verbatim>\<open>long\<close>). It
  instantiates the parameter \<open>eval\<close> in the examples only.
\<close>

fun int_op :: "operator \<Rightarrow> pyvalue \<Rightarrow> pyvalue \<Rightarrow> error + pyvalue" where
  "int_op Add (VInt x) (VInt y) = Inr (VInt (x + y))"
| "int_op Div (VInt x) (VInt y) =
     (if y = 0 then Inl (EvalError ''ZeroDivisionError'') else Inr (VInt (x div y)))"
| "int_op Mult (VList xs) (VInt n) = Inr (VList (concat (replicate (nat n) xs)))"
| "int_op _ _ _ = Inl (EvalError ''outside the fragment'')"

fun py_eval :: "expr \<Rightarrow> error + pyvalue" where
  "py_eval (Num i (PInt n)) = Inr (VInt n)"
| "py_eval (List i elts c) =
     (case collect (map py_eval elts) of Inl e \<Rightarrow> Inl e | Inr vs \<Rightarrow> Inr (VList vs))"
| "py_eval (BinOp i l op r) =
     (case py_eval l of
        Inl e \<Rightarrow> Inl e
      | Inr a \<Rightarrow> (case py_eval r of Inl e \<Rightarrow> Inl e | Inr b \<Rightarrow> int_op op a b))"
| "py_eval _ = Inl (EvalError ''outside the fragment'')"

text \<open>No flagged node of the subtree folds: each one that is in the constant-expression
  table has a failing fold attempt.\<close>

definition no_fold_in :: "(expr \<Rightarrow> error + pyvalue) \<Rightarrow> nat set \<Rightarrow> expr \<Rightarrow> bool" where
  "no_fold_in eval ce node =
     list_all (\<lambda>m. in_table (ident_of m) ce \<longrightarrow> isl (fold_attempt eval m)) (subnodes node)"

text \<open>
  The claim's words for the variables forward substitution is applied to: (a) a chain of
  exactly two occurrences and laziness 1, or (b) a finite laziness and the name in the
  literals set; and exactly one \<^verbatim>\<open>D\<close> occurrence, no \<^verbatim>\<open>UD\<close> occurrence, and no \<^verbatim>\<open>D\<close>
  occurrence that is a function parameter.
\<close>

definition finite_lazyness :: "enat option \<Rightarrow> bool" where
  "finite_lazyness l = (case l of None \<Rightarrow> False | Some \<infinity> \<Rightarrow> False | Some (enat n) \<Rightarrow> True)"

definition fs_eligible :: "(string \<rightharpoonup> enat) \<Rightarrow> string set \<Rightarrow> string \<Rightarrow> udgraph \<Rightarrow> bool" where
  "fs_eligible lazyness_analysis literals name udgraph =
     (((length udgraph = 2 \<and> lazyness_analysis name = Some 1)
        \<or> (finite_lazyness (lazyness_analysis name) \<and> name \<in> literals))
      \<and> count_list (map ud_action udgraph) ActD = 1
      \<and> count_list (map ud_action udgraph) ActUD = 0
      \<and> \<not> list_ex (\<lambda>n. ud_action n = ActD \<and> ctx_of (ud_name n) = Inr Param) udgraph)"

text \<open>A tree in which every occurrence that is one of the nodes \<open>U\<close> has been replaced by
  the node \<open>rhs\<close> itself.\<close>

fun subst_expr :: "expr list \<Rightarrow> expr \<Rightarrow> expr \<Rightarrow> expr" where
  "subst_expr U rhs (Name i x c) =
     (if list_ex (same_node (Name i x c)) U then rhs else Name i x c)"
| "subst_expr U rhs (Num i n) = Num i n"
| "subst_expr U rhs (Str i s) = Str i s"
| "subst_expr U rhs (Attribute i v a c) = Attribute i (subst_expr U rhs v) a c"
| "subst_expr U rhs (BinOp i l op r) = BinOp i (subst_expr U rhs l) op (subst_expr U rhs r)"
| "subst_expr U rhs (Call i f args) =
     Call i (subst_expr U rhs f) (map (subst_expr U rhs) args)"
| "subst_expr U rhs (List i elts c) = List i (map (subst_expr U rhs) elts) c"
| "subst_expr U rhs (Tuple i elts c) = Tuple i (map (subst_expr U rhs) elts) c"
| "subst_expr U rhs (Set i elts) = Set i (map (subst_expr U rhs) elts)"
| "subst_expr U rhs (Dict i ks vs) =
     Dict i (map (subst_expr U rhs) ks) (map (subst_expr U rhs) vs)"
| "subst_expr U rhs (Subscript i v s c) =
     Subscript i (subst_expr U rhs v) (subst_expr U rhs s) c"
| "subst_expr U rhs (Index i v) = Index i (subst_expr U rhs v)"
| "subst_expr U rhs (Yield i v) = Yield i (map_option (subst_expr U rhs) v)"
| "subst_expr U rhs Deleted = Deleted"

fun subst_stmt :: "expr list \<Rightarrow> expr \<Rightarrow> stmt \<Rightarrow> stmt" where
  "subst_stmt U rhs (FunctionDef f args body) =
     FunctionDef f (map (subst_expr U rhs) args) (map (subst_stmt U rhs) body)"
| "subst_stmt U rhs (Return v) = Return (map_option (subst_expr U rhs) v)"
| "subst_stmt U rhs (Assign targets v) =
     Assign (map (subst_expr U rhs) targets) (subst_expr U rhs v)"
| "subst_stmt U rhs (AugAssign t op v) = AugAssign (subst_expr U rhs t) op (subst_expr U rhs v)"
| "subst_stmt U rhs (Print vs) = Print (map (subst_expr U rhs) vs)"
| "subst_stmt U rhs (For t it body orelse md) =
     For (subst_expr U rhs t) (subst_expr U rhs it)
       (map (subst_stmt U rhs) body) (map (subst_stmt U rhs) orelse) md"
| "subst_stmt U rhs (If t body orelse) =
     If (subst_expr U rhs t) (map (subst_stmt U rhs) body) (map (subst_stmt U rhs) orelse)"
| "subst_stmt U rhs (Expr i v) = Expr i (subst_expr U rhs v)"
| "subst_stmt U rhs Pass = Pass"
| "subst_stmt U rhs Break = Break"
| "subst_stmt U rhs Continue = Continue"

text \<open>Whether a tree contains one of the nodes \<open>U\<close>.\<close>

fun mentions :: "expr list \<Rightarrow> expr \<Rightarrow> bool" where
  "mentions U (Name i x c) = list_ex (same_node (Name i x c)) U"
| "mentions U (Num i n) = False"
| "mentions U (Str i s) = False"
| "mentions U (Attribute i v a c) = mentions U v"
| "mentions U (BinOp i l op r) = (mentions U l \<or> mentions U r)"
| "mentions U (Call i f args) = (mentions U f \<or> list_ex (mentions U) args)"
| "mentions U (List i elts c) = list_ex (mentions U) elts"
| "mentions U (Tuple i elts c) = list_ex (mentions U) elts"
| "mentions U (Set i elts) = list_ex (mentions U) elts"
| "mentions U (Dict i ks vs) = (list_ex (mentions U) ks \<or> list_ex (mentions U) vs)"
| "mentions U (Subscript i v s c) = (mentions U v \<or> mentions U s)"
| "mentions U (Index i v) = mentions U v"
| "mentions U (Yield i v) = (case v of None \<Rightarrow> False | Some e \<Rightarrow> mentions U e)"
| "mentions U Deleted = False"

fun mentions_stmt :: "expr list \<Rightarrow> stmt \<Rightarrow> bool" where
  "mentions_stmt U (FunctionDef f args body) =
     (list_ex (mentions U) args \<or> list_ex (mentions_stmt U) body)"
| "mentions_stmt U (Return v) = (case v of None \<Rightarrow> False | Some e \<Rightarrow> mentions U e)"
| "mentions_stmt U (Assign targets v) = (list_ex (mentions U) targets \<or> mentions U v)"
| "mentions_stmt U (AugAssign t op v) = (mentions U t \<or> mentions U v)"
| "mentions_stmt U (Print vs) = list_ex (mentions U) vs"
| "mentions_stmt U (For t it body orelse md) =
     (mentions U t \<or> mentions U it \<or> list_ex (mentions_stmt U) body
      \<or> list_ex (mentions_stmt U) orelse)"
| "mentions_stmt U (If t body orelse) =
     (mentions U t \<or> list_ex (mentions_stmt U) body \<or> list_ex (mentions_stmt U) orelse)"
| "mentions_stmt U (Expr i v) = mentions U v"
| "mentions_stmt U Pass = False"
| "mentions_stmt U Break = False"
| "mentions_stmt U Continue = False"

text \<open>Whether a statement contains an assignment that has the node \<open>D\<close> among its
  targets.\<close>

fun assigns_to :: "expr \<Rightarrow> stmt \<Rightarrow> bool" where
  "assigns_to D (Assign targets v) = list_ex (\<lambda>t. same_node t D) targets"
| "assigns_to D (FunctionDef f args body) = list_ex (assigns_to D) body"
| "assigns_to D (For t it body orelse md) = (list_ex (assigns_to D) body \<or> list_ex (assigns_to D) orelse)"
| "assigns_to D (If t body orelse) = (list_ex (assigns_to D) body \<or> list_ex (assigns_to D) orelse)"
| "assigns_to D _ = False"

text \<open>Whether a statement contains a \<^verbatim>\<open>For\<close> loop.\<close>

fun has_For :: "stmt \<Rightarrow> bool" where
  "has_For (For t it body orelse md) = True"
| "has_For (If t body orelse) = (list_ex has_For body \<or> list_ex has_For orelse)"
| "has_For (FunctionDef f args body) = list_ex has_For body"
| "has_For _ = False"




text \<open>A tree made of nodes built after the analyses ran.\<close>

definition all_New :: "expr \<Rightarrow> bool" where
  "all_New n = list_all (\<lambda>m. ident_of m = New) (subnodes n)"

text \<open>The children of a node, in field order.\<close>

fun children :: "expr \<Rightarrow> expr list" where
  "children (Attribute i v a c) = [v]"
| "children (BinOp i l op r) = [l, r]"
| "children (Call i f args) = f # args"
| "children (List i elts c) = elts"
| "children (Tuple i elts c) = elts"
| "children (Set i elts) = elts"
| "children (Dict i ks vs) = ks @ vs"
| "children (Subscript i v s c) = [v, s]"
| "children (Index i v) = [v]"
| "children (Yield i v) = (case v of None \<Rightarrow> [] | Some e \<Rightarrow> [e])"
| "children _ = []"

text \<open>
  The occurrences of a chain with a given tag, and a chain that has a \<^verbatim>\<open>D\<close> occurrence
  without a \<^verbatim>\<open>ctx\<close> attribute (reading \<^verbatim>\<open>D[0].ctx\<close> raises \<^verbatim>\<open>AttributeError\<close> on it).
\<close>

definition occurrences :: "udgraph \<Rightarrow> action \<Rightarrow> expr list" where
  "occurrences g a = [ud_name n. n \<leftarrow> g, ud_action n = a]"

definition define_without_ctx :: "udgraph \<Rightarrow> bool" where
  "define_without_ctx g = list_ex (\<lambda>n. ud_action n = ActD \<and> isl (ctx_of (ud_name n))) g"

text \<open>
  Forward substitution in the words of the claim: the variables of the dictionary are
  taken in iteration order; for each eligible one the remover is run on the function as
  the previous variables left it, with the chain's \<^verbatim>\<open>U\<close> occurrences and its \<^verbatim>\<open>D\<close>
  occurrence; for every other one the function stays as it is. A variable without a
  laziness entry raises \<^verbatim>\<open>KeyError\<close>.
\<close>

fun forward_eligible ::
  "(string \<times> udgraph) list \<Rightarrow> (string \<rightharpoonup> enat) \<Rightarrow> string set \<Rightarrow> stmt \<Rightarrow> error + stmt" where
  "forward_eligible [] lazyness_analysis literals node = Inr node"
| "forward_eligible ((name, g) # items) lazyness_analysis literals node =
     (if lazyness_analysis name = None then Inl KeyError
      else if \<not> fs_eligible lazyness_analysis literals name g then
        forward_eligible items lazyness_analysis literals node
      else if define_without_ctx g then Inl AttributeError
      else
        (case lr_stmt (occurrences g ActU) (hd (occurrences g ActD)) None node of
           Inl e \<Rightarrow> Inl e
         | Inr (node', capture) \<Rightarrow> forward_eligible items lazyness_analysis literals node'))"

text \<open>
  The statement \<open>s'\<close> is the statement \<open>s\<close> with the definition \<open>D = rhs\<close> forwarded to the
  uses \<open>U\<close>. Somewhere in \<open>s\<close>, at any depth, an assignment with right-hand side \<open>rhs\<close> has
  the node \<open>D\<close> among its targets; in \<open>s'\<close> that assignment has lost the first occurrence of
  \<open>D\<close> in its target list, or is \<^verbatim>\<open>Pass\<close> when \<open>D\<close> was its only target. Before the
  assignment, in traversal order, and inside it no node of \<open>U\<close> occurs and nothing assigns
  to \<open>D\<close>, and these parts are the same in \<open>s'\<close>. After it nothing assigns to \<open>D\<close>, and in
  \<open>s'\<close> every node of \<open>U\<close> there is replaced by the node \<open>rhs\<close>.
\<close>

inductive forwards :: "expr list \<Rightarrow> expr \<Rightarrow> expr \<Rightarrow> stmt \<Rightarrow> stmt \<Rightarrow> bool"
  and forwards_list :: "expr list \<Rightarrow> expr \<Rightarrow> expr \<Rightarrow> stmt list \<Rightarrow> stmt list \<Rightarrow> bool" where
  in_Assign:
    "list_ex (\<lambda>t. same_node t D) targets \<Longrightarrow> \<not> list_ex (mentions U) targets \<Longrightarrow>
     \<not> mentions U rhs \<Longrightarrow> \<not> same_node rhs D \<Longrightarrow> rhs \<noteq> Deleted \<Longrightarrow>
     forwards U D rhs (Assign targets rhs)
       (if length targets = 1 then Pass
        else Assign (takeWhile (\<lambda>t. \<not> same_node t D) targets
                       @ tl (dropWhile (\<lambda>t. \<not> same_node t D) targets)) rhs)"
| in_FunctionDef:
    "\<not> list_ex (mentions U) args \<Longrightarrow> forwards_list U D rhs body body' \<Longrightarrow>
     forwards U D rhs (FunctionDef f args body) (FunctionDef f args body')"
| in_For_body:
    "\<not> mentions U t \<Longrightarrow> \<not> mentions U it \<Longrightarrow> forwards_list U D rhs body body' \<Longrightarrow>
     \<not> list_ex (assigns_to D) orelse \<Longrightarrow>
     forwards U D rhs (For t it body orelse md)
       (For t it body' (map (subst_stmt U rhs) orelse) md)"
| in_For_orelse:
    "\<not> mentions U t \<Longrightarrow> \<not> mentions U it \<Longrightarrow> \<not> list_ex (mentions_stmt U) body \<Longrightarrow>
     \<not> list_ex (assigns_to D) body \<Longrightarrow> forwards_list U D rhs orelse orelse' \<Longrightarrow>
     forwards U D rhs (For t it body orelse md) (For t it body orelse' md)"
| in_If_body:
    "\<not> mentions U t \<Longrightarrow> forwards_list U D rhs body body' \<Longrightarrow>
     \<not> list_ex (assigns_to D) orelse \<Longrightarrow>
     forwards U D rhs (If t body orelse) (If t body' (map (subst_stmt U rhs) orelse))"
| in_If_orelse:
    "\<not> mentions U t \<Longrightarrow> \<not> list_ex (mentions_stmt U) body \<Longrightarrow>
     \<not> list_ex (assigns_to D) body \<Longrightarrow> forwards_list U D rhs orelse orelse' \<Longrightarrow>
     forwards U D rhs (If t body orelse) (If t body orelse')"
| in_list:
    "\<not> list_ex (mentions_stmt U) pre \<Longrightarrow> \<not> list_ex (assigns_to D) pre \<Longrightarrow>
     forwards U D rhs s s' \<Longrightarrow> \<not> list_ex (assigns_to D) post \<Longrightarrow>
     forwards_list U D rhs (pre @ s # post) (pre @ s' # map (subst_stmt U rhs) post)"

section \<open>Properties of dead code elimination\<close>

lemma use_count_eq:
  "length (filter is_use udc) =
   count_list (map ud_action udc) ActU + count_list (map ud_action udc) ActUD"
  by (induction udc) (auto simp: is_use_def)

lemma used_target_cases:
  "used_target ch t = (if chain_missing ch t then Inl KeyError else Inr (\<not> dead_target ch t))"
  by (cases t) (auto simp: chain_missing_def dead_target_def use_count_eq split: option.splits)

lemma filter_raising_total:
  "\<forall>x\<in>set xs. f x = Inr (p x) \<Longrightarrow> filter_raising f xs = Inr (filter p xs)"
  by (induction xs) auto

lemma filter_raising_error:
  "\<exists>x\<in>set xs. f x = Inl e \<Longrightarrow> \<forall>x\<in>set xs. f x = Inl e \<or> (\<exists>b. f x = Inr b) \<Longrightarrow>
   filter_raising f xs = Inl e"
proof (induction xs)
  case Nil
  then show ?case by simp
next
  case (Cons a xs)
  show ?case
  proof (cases "f a")
    case (Inl e')
    with Cons.prems(2) show ?thesis by auto
  next
    case (Inr b)
    with Cons.prems have "\<exists>x\<in>set xs. f x = Inl e"
      and "\<forall>x\<in>set xs. f x = Inl e \<or> (\<exists>b. f x = Inr b)" by auto
    then have "filter_raising f xs = Inl e" by (rule Cons.IH)
    with Inr show ?thesis by simp
  qed
qed

lemma filter_targets:
  "filter_raising (used_target ch) ts =
     (if list_ex (chain_missing ch) ts then Inl KeyError
      else Inr (filter (\<lambda>t. \<not> dead_target ch t) ts))"
proof (cases "list_ex (chain_missing ch) ts")
  case True
  have "filter_raising (used_target ch) ts = Inl KeyError"
  proof (rule filter_raising_error)
    show "\<exists>x\<in>set ts. used_target ch x = Inl KeyError"
      using True by (simp add: used_target_cases list_ex_iff)
    show "\<forall>x\<in>set ts. used_target ch x = Inl KeyError \<or> (\<exists>b. used_target ch x = Inr b)"
      by (simp add: used_target_cases)
  qed
  with True show ?thesis by simp
next
  case False
  have "filter_raising (used_target ch) ts = Inr (filter (\<lambda>t. \<not> dead_target ch t) ts)"
  proof (rule filter_raising_total)
    show "\<forall>x\<in>set ts. used_target ch x = Inr (\<not> dead_target ch x)"
      using False by (simp add: used_target_cases list_ex_iff)
  qed
  with False show ?thesis by simp
qed

text \<open>
  Claim C1. \<^verbatim>\<open>DeadCodeElimination.visit_Assign\<close>, on an assignment all of whose name targets
  have a use-def chain, drops exactly the targets that are names with no occurrence tagged
  \<^verbatim>\<open>U\<close> or \<^verbatim>\<open>UD\<close>, in order. When targets remain the assignment is returned with them. When
  none remain, the statement becomes \<^verbatim>\<open>Pass\<close> if the right-hand side is in the
  pure-expression set, and otherwise a bare expression statement holding the same
  right-hand side. (A name target without a chain raises \<^verbatim>\<open>KeyError\<close>.)
\<close>

theorem dce_visit_Assign_drops_dead_targets:
  "dce_visit_Assign ch pure ts v =
     (if list_ex (chain_missing ch) ts then Inl KeyError
      else let kept = filter (\<lambda>t. \<not> dead_target ch t) ts in
           if kept \<noteq> [] then Inr (Assign kept v)
           else if in_table (ident_of v) pure then Inr Pass
           else Inr (Expr New v))"
  by (simp add: dce_visit_Assign_def filter_targets Let_def)

text \<open>The doctest \<^verbatim>\<open>a = [2, 3]\<close> with \<^verbatim>\<open>a\<close> never used, and the same assignment with a
  right-hand side outside the pure-expression set.\<close>

theorem dce_visit_Assign_drops_dead_targets_witness:
  "dce_visit_Assign [''a'' \<mapsto> [UDNode (Name (Nid 1) ''a'' Store) ActD]] {2}
     [Name (Nid 1) ''a'' Store]
     (List (Nid 2) [Num (Nid 3) (PInt 2), Num (Nid 4) (PInt 3)] Load) = Inr Pass
   \<and> dce_visit_Assign [''a'' \<mapsto> [UDNode (Name (Nid 1) ''a'' Store) ActD]] {}
     [Name (Nid 1) ''a'' Store] (Call (Nid 2) (Name (Nid 3) ''f'' Load) [])
     = Inr (Expr New (Call (Nid 2) (Name (Nid 3) ''f'' Load) []))"
  by (simp add: dce_visit_Assign_drops_dead_targets chain_missing_def dead_target_def)

text \<open>
  Claim C9. \<^verbatim>\<open>DeadCodeElimination.visit_Expr\<close> returns \<^verbatim>\<open>Pass\<close> exactly when the expression
  statement is in the pure-expression set and its expression is not a \<^verbatim>\<open>Yield\<close>; in every
  other case it returns the statement as it is.
\<close>

theorem dce_visit_Expr_pass_iff:
  "(dce_visit_Expr pure i v = Pass \<longleftrightarrow> in_table i pure \<and> \<not> is_Yield v)
   \<and> (\<not> (in_table i pure \<and> \<not> is_Yield v) \<longrightarrow> dce_visit_Expr pure i v = Expr i v)"
  by (simp add: dce_visit_Expr_def)

theorem dce_visit_Expr_pass_iff_witness:
  "dce_visit_Expr {1} (Nid 1) (Str (Nid 2) ''a simple string'') = Pass
   \<and> dce_visit_Expr {1} (Nid 1) (Yield (Nid 2) None) = Expr (Nid 1) (Yield (Nid 2) None)"
proof
  have "in_table (Nid 1) {1::nat} \<and> \<not> is_Yield (Str (Nid 2) ''a simple string'')" by simp
  then show "dce_visit_Expr {1} (Nid 1) (Str (Nid 2) ''a simple string'') = Pass"
    using dce_visit_Expr_pass_iff [of "{1}" "Nid 1" "Str (Nid 2) ''a simple string''"] by blast
  have "\<not> (in_table (Nid 1) {1::nat} \<and> \<not> is_Yield (Yield (Nid 2) None))" by simp
  then show "dce_visit_Expr {1} (Nid 1) (Yield (Nid 2) None) = Expr (Nid 1) (Yield (Nid 2) None)"
    using dce_visit_Expr_pass_iff [of "{1}" "Nid 1" "Yield (Nid 2) None"] by blast
qed

text \<open>
  Claim C10. A target that is not a \<^verbatim>\<open>Name\<close> node is never removed by
  \<^verbatim>\<open>DeadCodeElimination.visit_Assign\<close>: whatever the use-def chains say, the visit either
  raises \<^verbatim>\<open>KeyError\<close> (a name target without a chain) or returns the assignment itself with
  that target still in its target list, so it returns neither \<^verbatim>\<open>Pass\<close> nor an expression
  statement.
\<close>

theorem dce_keeps_non_name_target:
  assumes "t \<in> set ts" and "\<not> is_Name t"
  shows "dce_visit_Assign ch pure ts v = Inl KeyError
         \<or> (\<exists>kept. dce_visit_Assign ch pure ts v = Inr (Assign kept v) \<and> t \<in> set kept)"
proof (cases "list_ex (chain_missing ch) ts")
  case True
  then show ?thesis by (simp add: dce_visit_Assign_def filter_targets)
next
  case False
  from assms(2) have "\<not> dead_target ch t" by (cases t) (simp_all add: dead_target_def)
  with assms(1) have "t \<in> set (filter (\<lambda>t. \<not> dead_target ch t) ts)" by simp
  moreover from this have "filter (\<lambda>t. \<not> dead_target ch t) ts \<noteq> []"
    by (metis empty_iff list.set(1))
  ultimately show ?thesis using False by (simp add: dce_visit_Assign_def filter_targets)
qed

text \<open>\<^verbatim>\<open>a = b.x = 1\<close> with \<^verbatim>\<open>a\<close> never used: the attribute target stays.\<close>

theorem dce_keeps_non_name_target_witness:
  "dce_visit_Assign [''a'' \<mapsto> [UDNode (Name (Nid 1) ''a'' Store) ActD]] {4}
     [Name (Nid 1) ''a'' Store, Attribute (Nid 2) (Name (Nid 3) ''b'' Load) ''x'' Store]
     (Num (Nid 4) (PInt 1))
   = Inr (Assign [Attribute (Nid 2) (Name (Nid 3) ''b'' Load) ''x'' Store] (Num (Nid 4) (PInt 1)))"
proof -
  let ?t = "Attribute (Nid 2) (Name (Nid 3) ''b'' Load) ''x'' Store"
  let ?ts = "[Name (Nid 1) ''a'' Store, ?t]"
  have 1: "?t \<in> set ?ts" by simp
  have 2: "\<not> is_Name ?t" by simp
  have 3: "dce_visit_Assign [''a'' \<mapsto> [UDNode (Name (Nid 1) ''a'' Store) ActD]] {4} ?ts
             (Num (Nid 4) (PInt 1)) \<noteq> Inl KeyError"
    by (simp add: dce_visit_Assign_def is_use_def)
  from dce_keeps_non_name_target [OF 1 2, of "[''a'' \<mapsto> [UDNode (Name (Nid 1) ''a'' Store) ActD]]"
      "{4}" "Num (Nid 4) (PInt 1)"] 3
  obtain kept where k: "dce_visit_Assign [''a'' \<mapsto> [UDNode (Name (Nid 1) ''a'' Store) ActD]] {4} ?ts
             (Num (Nid 4) (PInt 1)) = Inr (Assign kept (Num (Nid 4) (PInt 1)))" by blast
  moreover have "dce_visit_Assign [''a'' \<mapsto> [UDNode (Name (Nid 1) ''a'' Store) ActD]] {4} ?ts
             (Num (Nid 4) (PInt 1)) = Inr (Assign [?t] (Num (Nid 4) (PInt 1)))"
    by (simp add: dce_visit_Assign_def is_use_def)
  ultimately show ?thesis by simp
qed

section \<open>Properties of constant folding\<close>

declare cf_visit.simps [simp del]

lemma collect_Inr_iff:
  "collect rs = Inr ys \<longleftrightarrow> rs = map Inr ys"
proof (induction rs arbitrary: ys)
  case Nil
  show ?case by auto
next
  case (Cons r rs)
  show ?case
  proof (cases r)
    case (Inl e)
    then show ?thesis by auto
  next
    case (Inr y)
    show ?thesis
    proof (cases "collect rs")
      case (Inl e)
      with Inr Cons.IH show ?thesis by (cases ys) auto
    next
      case Inr2: (Inr zs)
      with Inr Cons.IH [of zs] show ?thesis by (cases ys) auto
    qed
  qed
qed

lemma collect_map_Inr:
  assumes "collect (map f xs) = Inr ys"
  shows "length ys = length xs" and "\<And>k. k < length xs \<Longrightarrow> f (xs ! k) = Inr (ys ! k)"
proof -
  from assms have eq: "map f xs = map Inr ys" by (simp add: collect_Inr_iff)
  then show len: "length ys = length xs" by (metis length_map)
  fix k assume "k < length xs"
  with eq len show "f (xs ! k) = Inr (ys ! k)" by (metis nth_map)
qed

lemma collect_Inl: "collect rs = Inl e \<Longrightarrow> Inl e \<in> set rs"
  by (induction rs) (auto split: sum.splits)

lemma sum_list_zero_nth:
  "(\<And>k. k < length ys \<Longrightarrow> g (ys ! k) = (0::nat)) \<Longrightarrow> sum_list (map g ys) = 0"
  by (simp add: in_set_conv_nth) (metis in_set_conv_nth)

lemma to_ast_elts_clean:
  assumes IH: "\<And>x n. x \<in> set xs \<Longrightarrow> to_ast x = Inr n \<Longrightarrow> oversized_nodes n = 0"
    and c: "collect (map to_ast xs) = Inr ys"
  shows "sum_list (map oversized_nodes ys) = 0"
proof (rule sum_list_zero_nth)
  fix k assume "k < length ys"
  with collect_map_Inr [OF c] have "k < length xs" "to_ast (xs ! k) = Inr (ys ! k)" by simp_all
  then show "oversized_nodes (ys ! k) = 0" using IH by (metis nth_mem)
qed

lemma to_ast_elts_small:
  assumes IH: "\<And>x n. x \<in> set xs \<Longrightarrow> to_ast x = Inr n \<Longrightarrow> oversized_nodes n = 0"
    and len: "length xs < MAX_LEN"
    and c: "collect (map to_ast xs) = Inr ys"
  shows "length ys < MAX_LEN \<and> sum_list (map oversized_nodes ys) = 0"
  using to_ast_elts_clean [OF IH c] collect_map_Inr(1) [OF c] len by simp

lemma to_ast_no_oversized: "to_ast v = Inr n \<Longrightarrow> oversized_nodes n = 0"
proof (induction v arbitrary: n rule: to_ast.induct)
  case (7 vs)
  from "7.prems" obtain elts where len: "length vs < MAX_LEN"
    and c: "collect (map to_ast vs) = Inr elts" and n: "n = List New elts Load"
    by (auto split: if_splits sum.splits)
  from to_ast_elts_small [OF _ len c] "7.IH" len show ?case by (simp add: n)
next
  case (8 vs)
  from "8.prems" obtain elts where len: "length vs < MAX_LEN"
    and c: "collect (map to_ast vs) = Inr elts" and n: "n = Tuple New elts Load"
    by (auto split: if_splits sum.splits)
  from to_ast_elts_small [OF _ len c] "8.IH" len show ?case by (simp add: n)
next
  case (9 vs)
  from "9.prems" obtain elts where len: "length vs < MAX_LEN"
    and c: "collect (map to_ast vs) = Inr elts" and n: "n = Set New elts"
    by (auto split: if_splits sum.splits)
  from to_ast_elts_small [OF _ len c] "9.IH" len show ?case by (simp add: n)
next
  case (10 ks vs)
  from "10.prems" obtain keys vals where len: "length ks < MAX_LEN"
    and ck: "collect (map to_ast ks) = Inr keys" and cv: "collect (map to_ast vs) = Inr vals"
    and n: "n = Dict New keys vals"
    by (auto split: if_splits sum.splits)
  have k: "length keys < MAX_LEN \<and> sum_list (map oversized_nodes keys) = 0"
    using to_ast_elts_small [OF _ len ck] "10.IH"(1) len by simp
  have v: "sum_list (map oversized_nodes vals) = 0"
    using to_ast_elts_clean [OF _ cv] "10.IH"(2) len ck by simp
  from k v show ?case by (simp add: n)
qed auto

lemma to_ast_over_cap: "over_cap v \<Longrightarrow> to_ast v = Inl ConversionError"
  by (cases v) (simp_all add: over_cap_def)

lemma fold_attempt_no_oversized:
  "fold_attempt eval node = Inr n \<Longrightarrow> oversized_nodes n = 0"
  by (auto simp: fold_attempt_def Let_def split: sum.splits if_splits dest: to_ast_no_oversized)

lemma fold_attempt_over_cap:
  "eval (expression_of node) = Inr v \<Longrightarrow> over_cap v \<Longrightarrow>
   fold_attempt eval node = Inl ConversionError"
  by (simp add: fold_attempt_def to_ast_over_cap)

lemma sum_list_map_le:
  "(\<And>x. x \<in> set xs \<Longrightarrow> g (f x) \<le> (g x :: nat)) \<Longrightarrow>
   sum_list (map (g \<circ> f) xs) \<le> sum_list (map g xs)"
  by (induction xs) (auto intro: add_mono)

lemma cf_oversized:
  "oversized_nodes (cf_visit eval ce node) \<le> oversized_nodes node"
  "oversized_nodes (cf_generic eval ce node) \<le> oversized_nodes node"
proof (induction eval ce node and eval ce node rule: cf_visit_cf_generic.induct)
  case (1 eval ce node)
  show ?case
  proof (cases "in_table (ident_of node) ce")
    case True
    show ?thesis
    proof (cases "fold_attempt eval node")
      case (Inl e)
      with True "1.IH"(1) show ?thesis by (simp add: cf_visit.simps)
    next
      case (Inr n)
      with True fold_attempt_no_oversized [OF Inr] show ?thesis by (simp add: cf_visit.simps)
    qed
  next
    case False
    with "1.IH"(2) show ?thesis by (simp add: cf_visit.simps)
  qed
next
  case (7 eval ce i f args)
  then show ?case by (simp add: add_mono sum_list_map_le)
next
  case (8 eval ce i elts c)
  then show ?case by (simp add: add_mono sum_list_map_le)
next
  case (9 eval ce i elts c)
  then show ?case by (simp add: add_mono sum_list_map_le)
next
  case (10 eval ce i elts)
  then show ?case by (simp add: add_mono sum_list_map_le)
next
  case (11 eval ce i ks vs)
  then show ?case by (simp add: add_mono sum_list_map_le)
next
  case (14 eval ce i v)
  then show ?case by (cases v) simp_all
qed (simp_all add: add_mono)

text \<open>
  Claim C6. Every literal node \<^verbatim>\<open>to_ast\<close> returns has no list, tuple, set or dict node with
  \<open>MAX_LEN\<close> = 256 elements or more anywhere in it; on a container value whose size is not
  strictly below the cap \<^verbatim>\<open>to_ast\<close> raises \<^verbatim>\<open>ConversionError\<close>; a flagged node that evaluates
  to such a value is not replaced by a literal (the visit falls back to the base traversal
  of the node); and the visit of a tree never increases the number of literal container
  nodes of 256 elements or more, so folding introduces none.
\<close>

theorem constant_folding_respects_MAX_LEN:
  "(\<forall>n. to_ast v = Inr n \<longrightarrow> oversized_nodes n = 0)
   \<and> (over_cap v \<longrightarrow> to_ast v = Inl ConversionError)
   \<and> (over_cap v \<and> eval (expression_of node) = Inr v \<longrightarrow>
        cf_visit eval ce node = cf_generic eval ce node)
   \<and> oversized_nodes (cf_visit eval ce node) \<le> oversized_nodes node"
proof (intro conjI allI impI)
  fix n assume "to_ast v = Inr n"
  then show "oversized_nodes n = 0" by (rule to_ast_no_oversized)
next
  assume "over_cap v"
  then show "to_ast v = Inl ConversionError" by (rule to_ast_over_cap)
next
  assume "over_cap v \<and> eval (expression_of node) = Inr v"
  then have "fold_attempt eval node = Inl ConversionError"
    by (simp add: fold_attempt_over_cap)
  then show "cf_visit eval ce node = cf_generic eval ce node"
    by (simp add: cf_visit.simps)
next
  show "oversized_nodes (cf_visit eval ce node) \<le> oversized_nodes node"
    by (rule cf_oversized)
qed


text \<open>\<^verbatim>\<open>[0] * 256\<close> evaluates to a list of 256 elements: the product stays, its operands are
  folded.\<close>

theorem constant_folding_respects_MAX_LEN_witness:
  "to_ast (VList (concat (replicate (nat 256) [VInt 0]))) = Inl ConversionError
   \<and> cf_visit py_eval {1, 2, 3, 4}
        (BinOp (Nid 1) (List (Nid 2) [Num (Nid 3) (PInt 0)] Load) Mult (Num (Nid 4) (PInt 256)))
      = BinOp (Nid 1) (List New [Num New (PInt 0)] Load) Mult (Num New (PInt 256))"
proof -
  let ?v = "VList (concat (replicate (nat 256) [VInt 0]))"
  let ?node = "BinOp (Nid 1) (List (Nid 2) [Num (Nid 3) (PInt 0)] Load) Mult (Num (Nid 4) (PInt 256))"
  have oc: "over_cap ?v" by (simp add: over_cap_def MAX_LEN_def length_concat)
  have ev: "py_eval (expression_of ?node) = Inr ?v" by simp
  note inst = constant_folding_respects_MAX_LEN [of ?v py_eval ?node "{1, 2, 3, 4}"]
  from inst oc have 1: "to_ast ?v = Inl ConversionError" by blast
  from inst oc ev have "cf_visit py_eval {1, 2, 3, 4} ?node = cf_generic py_eval {1, 2, 3, 4} ?node"
    by blast
  also have "\<dots> = BinOp (Nid 1) (List New [Num New (PInt 0)] Load) Mult (Num New (PInt 256))"
    by (simp add: cf_visit.simps fold_attempt_def MAX_LEN_def)
  finally show ?thesis using 1 by simp
qed

lemma cf_ident:
  "in_table (ident_of node) ce \<Longrightarrow> fold_attempt eval node = Inl e \<Longrightarrow>
   cf_visit eval ce node = cf_generic eval ce node"
  by (simp add: cf_visit.simps)

lemma cf_generic_ident: "ident_of (cf_generic eval ce node) = ident_of node"
  by (cases node) simp_all

lemma map_idI: "(\<And>x. x \<in> set xs \<Longrightarrow> f x = x) \<Longrightarrow> map f xs = xs"
  by (induction xs) auto

lemma list_all_subnodes_elt:
  "list_all P (concat (map subnodes xs)) \<Longrightarrow> x \<in> set xs \<Longrightarrow> list_all P (subnodes x)"
  by (auto simp: list_all_iff)

lemma cf_unchanged:
  "no_fold_in eval ce node \<Longrightarrow> cf_visit eval ce node = node"
  "no_fold_in eval ce node \<Longrightarrow> cf_generic eval ce node = node"
proof (induction eval ce node and eval ce node rule: cf_visit_cf_generic.induct)
  case (1 eval ce node)
  have self: "node \<in> set (subnodes node)" by (cases node) simp_all
  show ?case
  proof (cases "in_table (ident_of node) ce")
    case True
    with "1.prems" self have "isl (fold_attempt eval node)"
      by (auto simp: no_fold_in_def list_all_iff)
    then obtain e where e: "fold_attempt eval node = Inl e" by (cases "fold_attempt eval node") auto
    with True "1.IH"(1) "1.prems" show ?thesis by (simp add: cf_visit.simps)
  next
    case False
    with "1.IH"(2) "1.prems" show ?thesis by (simp add: cf_visit.simps)
  qed
next
  case (5 eval ce i v a c)
  from "5.prems" have "no_fold_in eval ce v" by (simp add: no_fold_in_def)
  with "5.IH" show ?case by simp
next
  case (6 eval ce i l op r)
  from "6.prems" have "no_fold_in eval ce l" "no_fold_in eval ce r"
    by (simp_all add: no_fold_in_def)
  with "6.IH" show ?case by simp
next
  case (7 eval ce i f args)
  from "7.prems" have f: "no_fold_in eval ce f"
    and a: "\<And>x. x \<in> set args \<Longrightarrow> no_fold_in eval ce x"
    by (auto simp: no_fold_in_def intro: list_all_subnodes_elt)
  from a "7.IH"(2) have "map (cf_visit eval ce) args = args" by (intro map_idI) simp
  with f "7.IH"(1) show ?case by simp
next
  case (8 eval ce i elts c)
  from "8.prems" have a: "\<And>x. x \<in> set elts \<Longrightarrow> no_fold_in eval ce x"
    by (auto simp: no_fold_in_def intro: list_all_subnodes_elt)
  from a "8.IH" have "map (cf_visit eval ce) elts = elts" by (intro map_idI) simp
  then show ?case by simp
next
  case (9 eval ce i elts c)
  from "9.prems" have a: "\<And>x. x \<in> set elts \<Longrightarrow> no_fold_in eval ce x"
    by (auto simp: no_fold_in_def intro: list_all_subnodes_elt)
  from a "9.IH" have "map (cf_visit eval ce) elts = elts" by (intro map_idI) simp
  then show ?case by simp
next
  case (10 eval ce i elts)
  from "10.prems" have a: "\<And>x. x \<in> set elts \<Longrightarrow> no_fold_in eval ce x"
    by (auto simp: no_fold_in_def intro: list_all_subnodes_elt)
  from a "10.IH" have "map (cf_visit eval ce) elts = elts" by (intro map_idI) simp
  then show ?case by simp
next
  case (11 eval ce i ks vs)
  from "11.prems" have k: "\<And>x. x \<in> set ks \<Longrightarrow> no_fold_in eval ce x"
    and v: "\<And>x. x \<in> set vs \<Longrightarrow> no_fold_in eval ce x"
    by (auto simp: no_fold_in_def intro: list_all_subnodes_elt)
  from k "11.IH"(1) have "map (cf_visit eval ce) ks = ks" by (intro map_idI) simp
  moreover from v "11.IH"(2) have "map (cf_visit eval ce) vs = vs" by (intro map_idI) simp
  ultimately show ?case by simp
next
  case (12 eval ce i v s c)
  from "12.prems" have "no_fold_in eval ce v" "no_fold_in eval ce s"
    by (simp_all add: no_fold_in_def)
  with "12.IH" show ?case by simp
next
  case (13 eval ce i v)
  from "13.prems" have "no_fold_in eval ce v" by (simp add: no_fold_in_def)
  with "13.IH" show ?case by simp
next
  case (14 eval ce i v)
  show ?case
  proof (cases v)
    case None
    then show ?thesis by simp
  next
    case (Some w)
    with "14.prems" have "no_fold_in eval ce w" by (simp add: no_fold_in_def)
    with "14.IH" Some show ?thesis by simp
  qed
qed simp_all

lemma all_New_elts:
  assumes IH: "\<And>x n. x \<in> set xs \<Longrightarrow> to_ast x = Inr n \<Longrightarrow> all_New n"
    and c: "collect (map to_ast xs) = Inr ys"
  shows "list_all (\<lambda>m. ident_of m = New) (concat (map subnodes ys))"
proof -
  have "\<And>y. y \<in> set ys \<Longrightarrow> all_New y"
  proof -
    fix y assume "y \<in> set ys"
    then obtain k where k: "k < length ys" "y = ys ! k" by (metis in_set_conv_nth)
    with collect_map_Inr [OF c] have "k < length xs" "to_ast (xs ! k) = Inr y" by simp_all
    then show "all_New y" using IH by (metis nth_mem)
  qed
  then show ?thesis by (auto simp: list_all_iff all_New_def)
qed

lemma to_ast_all_New: "to_ast v = Inr n \<Longrightarrow> all_New n"
proof (induction v arbitrary: n rule: to_ast.induct)
  case (7 vs)
  from "7.prems" obtain elts where len: "length vs < MAX_LEN"
    and c: "collect (map to_ast vs) = Inr elts" and n: "n = List New elts Load"
    by (auto split: if_splits sum.splits)
  from all_New_elts [OF _ c] "7.IH" len show ?case by (simp add: n all_New_def)
next
  case (8 vs)
  from "8.prems" obtain elts where len: "length vs < MAX_LEN"
    and c: "collect (map to_ast vs) = Inr elts" and n: "n = Tuple New elts Load"
    by (auto split: if_splits sum.splits)
  from all_New_elts [OF _ c] "8.IH" len show ?case by (simp add: n all_New_def)
next
  case (9 vs)
  from "9.prems" obtain elts where len: "length vs < MAX_LEN"
    and c: "collect (map to_ast vs) = Inr elts" and n: "n = Set New elts"
    by (auto split: if_splits sum.splits)
  from all_New_elts [OF _ c] "9.IH" len show ?case by (simp add: n all_New_def)
next
  case (10 ks vs)
  from "10.prems" obtain keys vals where len: "length ks < MAX_LEN"
    and ck: "collect (map to_ast ks) = Inr keys" and cv: "collect (map to_ast vs) = Inr vals"
    and n: "n = Dict New keys vals"
    by (auto split: if_splits sum.splits)
  have k: "list_all (\<lambda>m. ident_of m = New) (concat (map subnodes keys))"
    using all_New_elts [OF _ ck] "10.IH"(1) len by simp
  have v: "list_all (\<lambda>m. ident_of m = New) (concat (map subnodes vals))"
    using all_New_elts [OF _ cv] "10.IH"(2) len ck by simp
  from k v show ?case by (simp add: n all_New_def)
qed (auto simp: all_New_def)

lemma fold_attempt_all_New: "fold_attempt eval node = Inr n \<Longrightarrow> all_New n"
  by (auto simp: fold_attempt_def Let_def all_New_def split: sum.splits if_splits
      dest!: to_ast_all_New)



lemma fold_attempt_ident: "fold_attempt eval node = Inr n \<Longrightarrow> ident_of n = New"
proof -
  assume "fold_attempt eval node = Inr n"
  then have "all_New n" by (rule fold_attempt_all_New)
  moreover have "n \<in> set (subnodes n)" by (cases n) simp_all
  ultimately show ?thesis by (simp add: all_New_def list_all_iff)
qed

lemma subnodes_children: "subnodes node = node # concat (map subnodes (children node))"
  by (cases node) (simp_all split: option.splits)

lemma children_cf_generic:
  "children (cf_generic eval ce node) = map (cf_visit eval ce) (children node)"
  by (cases node) (simp_all split: option.splits)

lemma map_eq_self: "map f xs = xs \<Longrightarrow> x \<in> set xs \<Longrightarrow> f x = x"
  by (induction xs) auto

lemma no_fold_in_children:
  "no_fold_in eval ce node \<longleftrightarrow>
     (in_table (ident_of node) ce \<longrightarrow> isl (fold_attempt eval node))
     \<and> (\<forall>c\<in>set (children node). no_fold_in eval ce c)"
  unfolding no_fold_in_def subnodes_children [of node] by (auto simp: list_all_iff)

lemma cf_generic_fixed_children:
  assumes "cf_generic eval ce node = node" and "c \<in> set (children node)"
  shows "cf_visit eval ce c = c"
proof -
  from assms(1) have "children (cf_generic eval ce node) = children node" by simp
  then have "map (cf_visit eval ce) (children node) = children node"
    by (simp only: children_cf_generic)
  from this assms(2) show ?thesis by (rule map_eq_self)
qed

lemma elt_size: "c \<in> set xs \<Longrightarrow> size (c::expr) \<le> size_list size xs"
  by (induction xs) auto

lemma cf_fixed_no_fold:
  "cf_visit eval ce node = node \<Longrightarrow> no_fold_in eval ce node"
proof (induction node rule: measure_induct_rule [where f = size])
  case (less node)
  have sz: "\<And>c. c \<in> set (children node) \<Longrightarrow> size c < size node"
    by (cases node) (auto simp: less_Suc_eq_le split: option.splits dest: elt_size)
  have gen: "cf_generic eval ce node = node \<and>
             (in_table (ident_of node) ce \<longrightarrow> isl (fold_attempt eval node))"
  proof (cases "in_table (ident_of node) ce")
    case False
    with less.prems show ?thesis by (simp add: cf_visit.simps)
  next
    case True
    show ?thesis
    proof (cases "fold_attempt eval node")
      case (Inl e)
      with True less.prems show ?thesis by (simp add: cf_visit.simps)
    next
      case (Inr n)
      with True less.prems have "n = node" by (simp add: cf_visit.simps)
      with fold_attempt_ident [OF Inr] True show ?thesis by simp
    qed
  qed
  have "\<forall>c\<in>set (children node). no_fold_in eval ce c"
  proof
    fix c assume c: "c \<in> set (children node)"
    from gen c have "cf_visit eval ce c = c" by (intro cf_generic_fixed_children) simp_all
    with sz [OF c] show "no_fold_in eval ce c" by (rule less.IH)
  qed
  with gen show ?case by (subst no_fold_in_children) simp
qed

text \<open>
  Claim C7, amended. When the fold attempt at a flagged node fails, for whatever reason, the
  failure is caught there and the visit returns a tree: the node itself (same identity),
  with the traversal continued into its children, each of which is replaced by the result
  of visiting it, so flagged descendants are folded. The subtree comes back untouched
  exactly when none of its flagged nodes folds.
\<close>

theorem failed_fold_keeps_node:
  assumes "in_table (ident_of node) ce" and "fold_attempt eval node = Inl e"
  shows "ident_of (cf_visit eval ce node) = ident_of node
         \<and> children (cf_visit eval ce node) = map (cf_visit eval ce) (children node)
         \<and> (cf_visit eval ce node = node \<longleftrightarrow> no_fold_in eval ce node)"
proof -
  from assms have v: "cf_visit eval ce node = cf_generic eval ce node" by (rule cf_ident)
  have "cf_visit eval ce node = node \<longleftrightarrow> no_fold_in eval ce node"
    using cf_fixed_no_fold cf_unchanged(1) by blast
  then show ?thesis unfolding v by (simp add: cf_generic_ident children_cf_generic)
qed

text \<open>\<^verbatim>\<open>(1 + 2) / 0\<close> with every node flagged: the division raises and is kept, its operands
  are folded, and the subtree is not the original one.\<close>

theorem failed_fold_keeps_node_witness:
  "ident_of (cf_visit py_eval {1, 2, 3, 4, 5}
     (BinOp (Nid 1) (BinOp (Nid 2) (Num (Nid 3) (PInt 1)) Add (Num (Nid 4) (PInt 2))) Div
        (Num (Nid 5) (PInt 0)))) = Nid 1
   \<and> children (cf_visit py_eval {1, 2, 3, 4, 5}
     (BinOp (Nid 1) (BinOp (Nid 2) (Num (Nid 3) (PInt 1)) Add (Num (Nid 4) (PInt 2))) Div
        (Num (Nid 5) (PInt 0)))) = [Num New (PInt 3), Num New (PInt 0)]"
proof -
  let ?node = "BinOp (Nid 1) (BinOp (Nid 2) (Num (Nid 3) (PInt 1)) Add (Num (Nid 4) (PInt 2))) Div
        (Num (Nid 5) (PInt 0))"
  have 1: "in_table (ident_of ?node) {1, 2, 3, 4, 5}" by simp
  have 2: "fold_attempt py_eval ?node = Inl (EvalError ''ZeroDivisionError'')"
    by (simp add: fold_attempt_def)
  have 3: "map (cf_visit py_eval {1, 2, 3, 4, 5}) (children ?node)
           = [Num New (PInt 3), Num New (PInt 0)]"
    by (simp add: cf_visit.simps fold_attempt_def)
  from failed_fold_keeps_node [OF 1 2] 3 show ?thesis by simp
qed

text \<open>
  Claim C7 as stated fails: the fold attempt at the flagged node \<^verbatim>\<open>(1 + 2) / 0\<close> fails, and
  the subtree in the result is not the original one.
\<close>

theorem failed_fold_subtree_counterexample:
  "in_table
     (ident_of (BinOp (Nid 1) (BinOp (Nid 2) (Num (Nid 3) (PInt 1)) Add (Num (Nid 4) (PInt 2)))
        Div (Num (Nid 5) (PInt 0)))) {1, 2, 3, 4, 5}
   \<and> fold_attempt py_eval
       (BinOp (Nid 1) (BinOp (Nid 2) (Num (Nid 3) (PInt 1)) Add (Num (Nid 4) (PInt 2)))
        Div (Num (Nid 5) (PInt 0))) = Inl (EvalError ''ZeroDivisionError'')
   \<and> cf_visit py_eval {1, 2, 3, 4, 5}
       (BinOp (Nid 1) (BinOp (Nid 2) (Num (Nid 3) (PInt 1)) Add (Num (Nid 4) (PInt 2)))
        Div (Num (Nid 5) (PInt 0)))
     \<noteq> BinOp (Nid 1) (BinOp (Nid 2) (Num (Nid 3) (PInt 1)) Add (Num (Nid 4) (PInt 2)))
        Div (Num (Nid 5) (PInt 0))"
  by (simp add: cf_visit.simps fold_attempt_def)

section \<open>Properties of full loop unrolling\<close>

lemma foldl_append_concat: "foldl (@) x xs = x @ concat xs"
  by (induction xs arbitrary: x) simp_all

lemma reduce_add_concat: "xss \<noteq> [] \<Longrightarrow> reduce_add xss = Inr (concat xss)"
  by (cases xss) (simp_all add: foldl_append_concat)

lemma visit_For_unroll_fires:
  assumes "elts \<noteq> []"
    and "metadata_get_OMPDirective md = []"
    and "\<not> list_ex HB body" and "\<not> list_ex HC body"
    and "NC (For target (List i elts c) body orelse md) * length elts < MAX_NODE_COUNT"
  shows "visit_For_unroll NC HB HC target (List i elts c) body orelse md =
         Inr (concat (map (\<lambda>elt. Assign [deepcopy target] elt # map deepcopy_stmt body) elts))"
proof -
  have "map (unroll target body) elts \<noteq> []" using assms(1) by simp
  then have "reduce_add (map (unroll target body) elts) =
             Inr (concat (map (unroll target body) elts))" by (rule reduce_add_concat)
  moreover have "unroll target body = (\<lambda>elt. Assign [deepcopy target] elt # map deepcopy_stmt body)"
    by (rule ext) (simp add: unroll_def)
  ultimately show ?thesis using assms(2-5) by (simp add: visit_For_unroll_def Let_def)
qed

lemma visit_For_unroll_keeps:
  assumes "metadata_get_OMPDirective md \<noteq> [] \<or> list_ex HB body \<or> list_ex HC body
           \<or> (case elts_of_List iter of
                 None \<Rightarrow> True
               | Some elts \<Rightarrow>
                   \<not> NC (For target iter body orelse md) * length elts < MAX_NODE_COUNT)"
  shows "visit_For_unroll NC HB HC target iter body orelse md = Inr [For target iter body orelse md]"
  using assms by (auto simp: visit_For_unroll_def Let_def split: option.splits)

lemma collect_map_Inr_id: "collect (map (\<lambda>x. Inr (f x)) xs) = Inr (map f xs)"
  by (induction xs) simp_all

lemma splice_singletons:
  assumes "\<And>s. s \<in> set ss \<Longrightarrow> f s = Inr [s]"
  shows "splice_stmts (map f ss) = Inr ss"
proof -
  from assms have "map f ss = map (\<lambda>s. Inr [s]) ss" by (intro map_cong) simp_all
  then have "collect (map f ss) = collect (map (\<lambda>s. Inr [s]) ss)" by (rule arg_cong)
  then have "collect (map f ss) = Inr (map (\<lambda>s. [s]) ss)" by (simp only: collect_map_Inr_id)
  moreover have "concat (map (\<lambda>s. [s]) ss) = ss" by (induction ss) simp_all
  ultimately show ?thesis by (simp add: splice_stmts_def)
qed

lemma lfu_visit_no_For: "\<not> has_For s \<Longrightarrow> lfu_visit NC HB HC s = Inr [s]"
proof (induction NC HB HC s rule: lfu_visit.induct)
  case (2 NC HB HC test body orelse)
  then have b: "splice_stmts (map (lfu_visit NC HB HC) body) = Inr body"
    by (intro splice_singletons) (auto simp: list_ex_iff)
  from 2 b have "splice_stmts (map (lfu_visit NC HB HC) orelse) = Inr orelse"
    by (intro splice_singletons) (auto simp: list_ex_iff)
  with b show ?case by simp
next
  case (3 NC HB HC f args body)
  then have "splice_stmts (map (lfu_visit NC HB HC) body) = Inr body"
    by (intro splice_singletons) (auto simp: list_ex_iff)
  then show ?case by simp
qed simp_all

lemma splice_no_For:
  "\<not> list_ex has_For ss \<Longrightarrow> splice_stmts (map (lfu_visit NC HB HC) ss) = Inr ss"
  by (intro splice_singletons lfu_visit_no_For) (simp add: list_ex_iff)

text \<open>
  Claim C4, amended. Take a for-loop whose iterable is a literal list node with at least one
  element, with no OpenMP annotation, whose children have been visited without an exception,
  with no break and no continue in its visited body, and with the node count of the whole
  visited loop (not of its body alone) times the number of elements below 512. The visit
  replaces the loop by the concatenation, over the elements in order, of one assignment of
  the element itself to a deep copy of the loop target, followed by a deep copy of the
  visited body.
\<close>

theorem visit_For_unrolls_literal_list:
  assumes "splice_stmts (map (lfu_visit NC HB HC) body) = Inr body'"
    and "splice_stmts (map (lfu_visit NC HB HC) orelse) = Inr orelse'"
    and "elts \<noteq> []"
    and "metadata_get_OMPDirective md = []"
    and "\<not> list_ex HB body'" and "\<not> list_ex HC body'"
    and "NC (For target (List i elts c) body' orelse' md) * length elts < MAX_NODE_COUNT"
  shows "lfu_visit NC HB HC (For target (List i elts c) body orelse md) =
         Inr (concat (map (\<lambda>elt. Assign [deepcopy target] elt # map deepcopy_stmt body') elts))"
  using assms by (simp add: visit_For_unroll_fires)

text \<open>The doctest \<^verbatim>\<open>for j in [1,2,3]: i += j\<close>.\<close>

theorem visit_For_unrolls_literal_list_witness:
  "lfu_visit node_count has_break has_continue
     (For (Name (Nid 1) ''j'' Store)
        (List (Nid 2) [Num (Nid 3) (PInt 1), Num (Nid 4) (PInt 2), Num (Nid 5) (PInt 3)] Load)
        [AugAssign (Name (Nid 6) ''i'' Store) Add (Name (Nid 7) ''j'' Load)] [] [])
   = Inr [Assign [Name New ''j'' Store] (Num (Nid 3) (PInt 1)),
          AugAssign (Name New ''i'' Store) Add (Name New ''j'' Load),
          Assign [Name New ''j'' Store] (Num (Nid 4) (PInt 2)),
          AugAssign (Name New ''i'' Store) Add (Name New ''j'' Load),
          Assign [Name New ''j'' Store] (Num (Nid 5) (PInt 3)),
          AugAssign (Name New ''i'' Store) Add (Name New ''j'' Load)]"
proof -
  let ?body = "[AugAssign (Name (Nid 6) ''i'' Store) Add (Name (Nid 7) ''j'' Load)]"
  let ?elts = "[Num (Nid 3) (PInt 1), Num (Nid 4) (PInt 2), Num (Nid 5) (PInt 3)]"
  have 1: "splice_stmts (map (lfu_visit node_count has_break has_continue) ?body) = Inr ?body"
    by (simp add: splice_stmts_def)
  have 2: "splice_stmts (map (lfu_visit node_count has_break has_continue) []) = Inr []"
    by (simp add: splice_stmts_def)
  have 3: "?elts \<noteq> []" by simp
  have 4: "metadata_get_OMPDirective [] = []" by (simp add: metadata_get_OMPDirective_def)
  have 5: "\<not> list_ex has_break ?body" by simp
  have 6: "\<not> list_ex has_continue ?body" by simp
  have 7: "node_count (For (Name (Nid 1) ''j'' Store) (List (Nid 2) ?elts Load) ?body [] [])
             * length ?elts < MAX_NODE_COUNT"
    by (simp add: MAX_NODE_COUNT_def)
  show ?thesis
    using visit_For_unrolls_literal_list [OF 1 2 3 4 5 6 7] by simp
qed

text \<open>
  Claim C4 as stated fails: \<^verbatim>\<open>for j in [0, ..., 0]: pass\<close> over 23 literal elements has a body
  of one node, so body node count times element count is 23, below 512; it has no
  annotation, no break and no continue. The loop node counts 27 nodes, 27 * 23 = 621, and
  the loop is returned as it is.
\<close>

theorem unroll_size_guard_counterexample:
  "sum_list (map node_count [Pass]) * length (map (\<lambda>k. Num (Nid k) (PInt 0)) [3..<26])
     < MAX_NODE_COUNT
   \<and> metadata_get_OMPDirective [] = []
   \<and> \<not> list_ex has_break [Pass] \<and> \<not> list_ex has_continue [Pass]
   \<and> lfu_visit node_count has_break has_continue
       (For (Name (Nid 1) ''j'' Store)
          (List (Nid 2) (map (\<lambda>k. Num (Nid k) (PInt 0)) [3..<26]) Load) [Pass] [] [])
     = Inr [For (Name (Nid 1) ''j'' Store)
          (List (Nid 2) (map (\<lambda>k. Num (Nid k) (PInt 0)) [3..<26]) Load) [Pass] [] []]"
  by (simp add: MAX_NODE_COUNT_def metadata_get_OMPDirective_def splice_stmts_def
      visit_For_unroll_def Let_def comp_def)

text \<open>The loop over an empty literal list, \<^verbatim>\<open>for j in []: pass\<close>: the product of the counts
  is 0, and \<^verbatim>\<open>reduce\<close> is applied to an empty sequence.\<close>

lemma visit_For_empty_list_raises:
  "lfu_visit node_count has_break has_continue
     (For (Name (Nid 1) ''j'' Store) (List (Nid 2) [] Load) [Pass] [] []) = Inl TypeError"
  by (simp add: MAX_NODE_COUNT_def metadata_get_OMPDirective_def splice_stmts_def
      visit_For_unroll_def Let_def)

text \<open>
  Claim C5, amended. When the children of a for-loop have been visited without an exception
  and the loop carries an OpenMP annotation, or its visited body contains a break or a
  continue, or its iterable is not a literal list node, or the node count of the visited
  loop times the number of elements is not below 512, the visit returns the loop itself,
  not expanded, with the visited body and else-branch in place of the original ones: loops
  nested in it have been processed. A loop that contains no nested for-loop is returned
  unchanged.
\<close>

theorem visit_For_keeps_loop:
  assumes "splice_stmts (map (lfu_visit NC HB HC) body) = Inr body'"
    and "splice_stmts (map (lfu_visit NC HB HC) orelse) = Inr orelse'"
    and "metadata_get_OMPDirective md \<noteq> [] \<or> list_ex HB body' \<or> list_ex HC body'
         \<or> (case elts_of_List iter of
               None \<Rightarrow> True
             | Some elts \<Rightarrow>
                 \<not> NC (For target iter body' orelse' md) * length elts < MAX_NODE_COUNT)"
  shows "lfu_visit NC HB HC (For target iter body orelse md) = Inr [For target iter body' orelse' md]
         \<and> (\<not> list_ex has_For body \<and> \<not> list_ex has_For orelse \<longrightarrow>
              body' = body \<and> orelse' = orelse)"
proof
  show "lfu_visit NC HB HC (For target iter body orelse md) = Inr [For target iter body' orelse' md]"
    using assms by (simp add: visit_For_unroll_keeps)
  show "\<not> list_ex has_For body \<and> \<not> list_ex has_For orelse \<longrightarrow> body' = body \<and> orelse' = orelse"
    using assms(1,2) by (auto simp: splice_no_For)
qed

text \<open>\<^verbatim>\<open>for j in [1]: break\<close> is returned unchanged.\<close>

theorem visit_For_keeps_loop_witness:
  "lfu_visit node_count has_break has_continue
     (For (Name (Nid 1) ''j'' Store)
        (List (Nid 2) [Num (Nid 3) (PInt 1)] Load) [Break] [] [])
   = Inr [For (Name (Nid 1) ''j'' Store)
        (List (Nid 2) [Num (Nid 3) (PInt 1)] Load) [Break] [] []]"
proof -
  have 1: "splice_stmts (map (lfu_visit node_count has_break has_continue) [Break]) = Inr [Break]"
    by (simp add: splice_stmts_def)
  have 2: "splice_stmts (map (lfu_visit node_count has_break has_continue) []) = Inr []"
    by (simp add: splice_stmts_def)
  have 3: "metadata_get_OMPDirective [] \<noteq> [] \<or> list_ex has_break [Break]
           \<or> list_ex has_continue [Break]
           \<or> (case elts_of_List (List (Nid 2) [Num (Nid 3) (PInt 1)] Load) of
                 None \<Rightarrow> True
               | Some elts \<Rightarrow>
                   \<not> node_count (For (Name (Nid 1) ''j'' Store)
                        (List (Nid 2) [Num (Nid 3) (PInt 1)] Load) [Break] [] [])
                      * length elts < MAX_NODE_COUNT)"
    by simp
  from visit_For_keeps_loop [OF 1 2 3] show ?thesis by blast
qed

text \<open>
  Claim C5 as stated fails: the iterable of \<^verbatim>\<open>for k in xs: for j in [1]: pass\<close> is not a
  literal list, and the loop returned is not the original one: its inner loop has been
  unrolled.
\<close>

theorem unroll_unchanged_counterexample:
  "elts_of_List (Name (Nid 2) ''xs'' Load) = None
   \<and> lfu_visit node_count has_break has_continue
       (For (Name (Nid 1) ''k'' Store) (Name (Nid 2) ''xs'' Load)
          [For (Name (Nid 3) ''j'' Store) (List (Nid 4) [Num (Nid 5) (PInt 1)] Load) [Pass] [] []]
          [] [])
     = Inr [For (Name (Nid 1) ''k'' Store) (Name (Nid 2) ''xs'' Load)
          [Assign [Name New ''j'' Store] (Num (Nid 5) (PInt 1)), Pass] [] []]
   \<and> lfu_visit node_count has_break has_continue
       (For (Name (Nid 1) ''k'' Store) (Name (Nid 2) ''xs'' Load)
          [For (Name (Nid 3) ''j'' Store) (List (Nid 4) [Num (Nid 5) (PInt 1)] Load) [Pass] [] []]
          [] [])
     \<noteq> Inr [For (Name (Nid 1) ''k'' Store) (Name (Nid 2) ''xs'' Load)
          [For (Name (Nid 3) ''j'' Store) (List (Nid 4) [Num (Nid 5) (PInt 1)] Load) [Pass] [] []]
          [] []]"
  by (simp add: MAX_NODE_COUNT_def metadata_get_OMPDirective_def splice_stmts_def
      visit_For_unroll_def Let_def unroll_def)

section \<open>Properties of forward substitution\<close>

lemma length_get: "length (get g a) = count_list (map ud_action g) a"
  by (induction g) (auto simp: get_def)

lemma occurrences_get: "occurrences g a = get g a"
  by (induction g) (simp_all add: occurrences_def get_def)

lemma finite_lazyness_Some: "finite_lazyness (Some lz) \<longleftrightarrow> lz \<noteq> \<infinity>"
  by (cases lz) (simp_all add: finite_lazyness_def)

lemma ctx_of_error: "ctx_of x = Inl e \<Longrightarrow> e = AttributeError"
  by (cases x) simp_all

lemma get_single:
  assumes "length (get g ActD) = 1"
  shows "\<exists>n. n \<in> set g \<and> ud_action n = ActD \<and> get g ActD ! 0 = ud_name n
             \<and> hd (get g ActD) = ud_name n
             \<and> (\<forall>m\<in>set g. ud_action m = ActD \<longrightarrow> m = n)"
proof -
  define F where "F = filter (\<lambda>n. ud_action n = ActD) g"
  have G: "get g ActD = map ud_name F" by (simp add: get_def F_def)
  with assms have "length F = 1" by simp
  then obtain n where F: "F = [n]"
    by (metis One_nat_def length_0_conv length_Suc_conv)
  have mem: "\<And>m. m \<in> set F \<longleftrightarrow> m \<in> set g \<and> ud_action m = ActD"
    by (simp add: F_def)
  have n: "n \<in> set g \<and> ud_action n = ActD" using mem [of n] by (simp add: F)
  have uniq: "\<forall>m\<in>set g. ud_action m = ActD \<longrightarrow> m = n"
  proof (intro ballI impI)
    fix m assume "m \<in> set g" "ud_action m = ActD"
    then have "m \<in> set F" by (simp add: mem)
    then show "m = n" by (simp add: F)
  qed
  have "get g ActD = [ud_name n]" by (simp add: G F)
  then have "get g ActD ! 0 = ud_name n \<and> hd (get g ActD) = ud_name n" by simp
  with n uniq show ?thesis by blast
qed

lemma single_D_iff:
  assumes "length (get g ActD) = 1"
  shows "list_ex (\<lambda>n. ud_action n = ActD \<and> P (ud_name n)) g \<longleftrightarrow> P (get g ActD ! 0)"
proof -
  from get_single [OF assms] obtain n where n: "n \<in> set g" "ud_action n = ActD"
    and d: "get g ActD ! 0 = ud_name n"
    and u: "\<forall>m\<in>set g. ud_action m = ActD \<longrightarrow> m = n" by blast
  show ?thesis
  proof
    assume "list_ex (\<lambda>n. ud_action n = ActD \<and> P (ud_name n)) g"
    then obtain m where m: "m \<in> set g" "ud_action m = ActD" "P (ud_name m)"
      unfolding list_ex_iff by blast
    from u m(1,2) have "m = n" by blast
    with m(3) show "P (get g ActD ! 0)" unfolding d by simp
  next
    assume "P (get g ActD ! 0)"
    then have "P (ud_name n)" unfolding d .
    with n show "list_ex (\<lambda>n. ud_action n = ActD \<and> P (ud_name n)) g"
      unfolding list_ex_iff by blast
  qed
qed

text \<open>One iteration of the loop of \<^verbatim>\<open>visit_FunctionDef\<close>, by cases.\<close>

lemma fs_step_cases:
  "fs_step lazyness_analysis literals (name, g) node =
     (if lazyness_analysis name = None then Inl KeyError
      else if \<not> fs_eligible lazyness_analysis literals name g then Inr node
      else if define_without_ctx g then Inl AttributeError
      else
        (case lr_stmt (occurrences g ActU) (hd (occurrences g ActD)) None node of
           Inl e \<Rightarrow> Inl e
         | Inr (node', capture) \<Rightarrow> Inr node'))"
proof (cases "lazyness_analysis name")
  case None
  then show ?thesis by (simp add: fs_step_def)
next
  case (Some lz)
  note lz = Some
  let ?A = "(length g = 2 \<and> lz = 1) \<or> (lz \<noteq> \<infinity> \<and> name \<in> literals)"
  let ?B = "length (get g ActD) = 1 \<and> length (get g ActUD) = 0"
  let ?P = "list_ex (\<lambda>n. ud_action n = ActD \<and> ctx_of (ud_name n) = Inr Param) g"
  let ?run = "\<lambda>d. (case lr_stmt (get g ActU) d None node of
                    Inl e \<Rightarrow> Inl e
                  | Inr (node', capture) \<Rightarrow> Inr node')"
  have step: "fs_step lazyness_analysis literals (name, g) node =
     (if ?A then
        (if ?B then
           (case ctx_of (get g ActD ! 0) of
              Inl e \<Rightarrow> Inl e
            | Inr c \<Rightarrow> if c \<noteq> Param then ?run (get g ActD ! 0) else Inr node)
         else Inr node)
      else Inr node)"
    unfolding fs_step_def Let_def prod.case lz option.case ..
  have el: "fs_eligible lazyness_analysis literals name g \<longleftrightarrow> ?A \<and> ?B \<and> \<not> ?P"
    unfolding fs_eligible_def lz finite_lazyness_Some length_get by blast
  show ?thesis
  proof (cases "?A \<and> ?B")
    case False
    then have "\<not> fs_eligible lazyness_analysis literals name g" unfolding el by blast
    moreover from False have "fs_step lazyness_analysis literals (name, g) node = Inr node"
      unfolding step by presburger
    ultimately show ?thesis by (simp add: lz)
  next
    case True
    then have one: "length (get g ActD) = 1" by blast
    then obtain d where D: "get g ActD = [d]"
      by (metis One_nat_def length_0_conv length_Suc_conv)
    have d0: "get g ActD ! 0 = d" by (simp add: D)
    have P: "?P \<longleftrightarrow> ctx_of d = Inr Param"
      using single_D_iff [OF one, of "\<lambda>x. ctx_of x = Inr Param"] by (simp add: D)
    have W: "define_without_ctx g \<longleftrightarrow> isl (ctx_of d)"
      unfolding define_without_ctx_def
      using single_D_iff [OF one, of "\<lambda>x. isl (ctx_of x)"] by (simp add: D)
    have s1: "fs_step lazyness_analysis literals (name, g) node =
           (case ctx_of d of
              Inl e \<Rightarrow> Inl e
            | Inr c \<Rightarrow> if c \<noteq> Param then ?run d else Inr node)"
      using True unfolding step d0 by simp
    show ?thesis
    proof (cases "ctx_of d")
      case (Inl e)
      then have e: "e = AttributeError" by (rule ctx_of_error)
      from Inl have "\<not> ?P" unfolding P by simp
      with True have "fs_eligible lazyness_analysis literals name g" unfolding el by blast
      moreover from Inl have "define_without_ctx g" unfolding W by simp
      ultimately show ?thesis unfolding s1 by (simp add: Inl e lz)
    next
      case (Inr c)
      then have nw: "\<not> define_without_ctx g" unfolding W by simp
      from Inr have e2: "fs_eligible lazyness_analysis literals name g \<longleftrightarrow> c \<noteq> Param"
        using True unfolding el P by simp
      show ?thesis unfolding s1 by (simp add: Inr nw e2 lz occurrences_get D)
    qed
  qed
qed

text \<open>
  Claim C2. \<^verbatim>\<open>ForwardSubstitution.visit_FunctionDef\<close> takes the variables of the use-def
  dictionary in turn, and for each of them runs the remover, with the chain's \<^verbatim>\<open>U\<close> nodes
  and its \<^verbatim>\<open>D\<close> node, on the function as the previous variables left it, exactly when (a)
  the chain has two occurrences and the laziness is 1, or (b) the laziness is finite and
  the name is in the literals set, and in addition the chain has exactly one \<^verbatim>\<open>D\<close>
  occurrence, no \<^verbatim>\<open>UD\<close> occurrence, and its \<^verbatim>\<open>D\<close> occurrence is not a parameter. For every
  other variable the function is passed on unchanged. (A variable without a laziness entry
  raises \<^verbatim>\<open>KeyError\<close>, and an eligible one whose \<^verbatim>\<open>D\<close> occurrence has no \<^verbatim>\<open>ctx\<close> raises
  \<^verbatim>\<open>AttributeError\<close>.)
\<close>

theorem forward_substitution_fires_iff:
  "fs_visit_FunctionDef items lazyness_analysis literals node =
     forward_eligible items lazyness_analysis literals node"
proof (induction items arbitrary: node)
  case Nil
  show ?case by simp
next
  case (Cons item items)
  obtain name g where item: "item = (name, g)" by (cases item)
  show ?case
    unfolding item fs_visit_FunctionDef.simps forward_eligible.simps fs_step_cases
    by (simp add: Cons.IH split: sum.splits)
qed


text \<open>
  \<^verbatim>\<open>def foo(n): a = [2, 3]; b = 5; print a; print b, n\<close>: the definitions of \<^verbatim>\<open>a\<close> and of \<^verbatim>\<open>b\<close>
  are forwarded, one after the other; the parameter \<^verbatim>\<open>n\<close>, between them in the dictionary,
  is left alone.
\<close>

theorem forward_substitution_fires_iff_witness:
  "fs_visit_FunctionDef
     [(''a'', [UDNode (Name (Nid 1) ''a'' Store) ActD, UDNode (Name (Nid 8) ''a'' Load) ActU]),
      (''n'', [UDNode (Name (Nid 0) ''n'' Param) ActD, UDNode (Name (Nid 10) ''n'' Load) ActU]),
      (''b'', [UDNode (Name (Nid 5) ''b'' Store) ActD, UDNode (Name (Nid 9) ''b'' Load) ActU])]
     [''a'' \<mapsto> 1, ''b'' \<mapsto> 1, ''n'' \<mapsto> 1] {}
     (FunctionDef ''foo'' [Name (Nid 0) ''n'' Param]
        [Assign [Name (Nid 1) ''a'' Store]
           (List (Nid 2) [Num (Nid 3) (PInt 2), Num (Nid 4) (PInt 3)] Load),
         Assign [Name (Nid 5) ''b'' Store] (Num (Nid 6) (PInt 5)),
         Print [Name (Nid 8) ''a'' Load],
         Print [Name (Nid 9) ''b'' Load, Name (Nid 10) ''n'' Load]])
   = Inr (FunctionDef ''foo'' [Name (Nid 0) ''n'' Param]
        [Pass, Pass,
         Print [List (Nid 2) [Num (Nid 3) (PInt 2), Num (Nid 4) (PInt 3)] Load],
         Print [Num (Nid 6) (PInt 5), Name (Nid 10) ''n'' Load]])"
  by (subst forward_substitution_fires_iff)
     (simp add: fs_eligible_def define_without_ctx_def occurrences_def lr_visit_Assign_def)

lemma present_map_Some:
  "(\<And>x. x \<in> set xs \<Longrightarrow> f x = Some (g x)) \<Longrightarrow> present (map f xs) = map g xs"
  by (induction xs) simp_all

lemma lr_visit_subst: "lr_visit U (Some rhs) e = Some (subst_expr U rhs e)"
proof (induction U "Some rhs" e rule: lr_visit.induct)
  case (6 U i f args)
  then have "present (map (lr_visit U (Some rhs)) args) = map (subst_expr U rhs) args"
    by (intro present_map_Some) simp
  with 6 show ?case by simp
next
  case (7 U i elts c)
  then have "present (map (lr_visit U (Some rhs)) elts) = map (subst_expr U rhs) elts"
    by (intro present_map_Some) simp
  then show ?case by simp
next
  case (8 U i elts c)
  then have "present (map (lr_visit U (Some rhs)) elts) = map (subst_expr U rhs) elts"
    by (intro present_map_Some) simp
  then show ?case by simp
next
  case (9 U i elts)
  then have "present (map (lr_visit U (Some rhs)) elts) = map (subst_expr U rhs) elts"
    by (intro present_map_Some) simp
  then show ?case by simp
next
  case (10 U i ks vs)
  then have k: "present (map (lr_visit U (Some rhs)) ks) = map (subst_expr U rhs) ks"
    by (intro present_map_Some) simp
  from 10 have "present (map (lr_visit U (Some rhs)) vs) = map (subst_expr U rhs) vs"
    by (intro present_map_Some) simp
  with k show ?case by simp
qed simp_all

lemma lr_visit_untouched: "\<not> mentions U e \<Longrightarrow> lr_visit U capture e = Some e"
proof (induction U capture e rule: lr_visit.induct)
  case (6 U capture i f args)
  then have "present (map (lr_visit U capture) args) = map (\<lambda>x. x) args"
    by (intro present_map_Some) (simp add: list_ex_iff)
  with 6 show ?case by simp
next
  case (7 U capture i elts c)
  then have "present (map (lr_visit U capture) elts) = map (\<lambda>x. x) elts"
    by (intro present_map_Some) (simp add: list_ex_iff)
  then show ?case by simp
next
  case (8 U capture i elts c)
  then have "present (map (lr_visit U capture) elts) = map (\<lambda>x. x) elts"
    by (intro present_map_Some) (simp add: list_ex_iff)
  then show ?case by simp
next
  case (9 U capture i elts)
  then have "present (map (lr_visit U capture) elts) = map (\<lambda>x. x) elts"
    by (intro present_map_Some) (simp add: list_ex_iff)
  then show ?case by simp
next
  case (10 U capture i ks vs)
  then have k: "present (map (lr_visit U capture) ks) = map (\<lambda>x. x) ks"
    by (intro present_map_Some) (simp add: list_ex_iff)
  from 10 have "present (map (lr_visit U capture) vs) = map (\<lambda>x. x) vs"
    by (intro present_map_Some) (simp add: list_ex_iff)
  with k show ?case by simp
qed simp_all

lemma present_untouched:
  "\<not> list_ex (mentions U) es \<Longrightarrow> present (map (lr_visit U capture) es) = es"
proof -
  assume "\<not> list_ex (mentions U) es"
  then have "present (map (lr_visit U capture) es) = map (\<lambda>x. x) es"
    by (intro present_map_Some lr_visit_untouched) (simp add: list_ex_iff)
  then show ?thesis by simp
qed

lemma present_subst:
  "present (map (lr_visit U (Some rhs)) es) = map (subst_expr U rhs) es"
  by (intro present_map_Some lr_visit_subst)

lemma ident_of_subst:
  "ident_of (subst_expr U rhs e) = (if mentions U e \<and> is_Name e then ident_of rhs else ident_of e)"
  by (cases e) simp_all

lemma same_node_subst:
  "\<not> same_node rhs D \<Longrightarrow> same_node (subst_expr U rhs t) D \<Longrightarrow> same_node t D"
  by (simp add: ident_of_subst split: if_splits)

lemma targets_subst:
  assumes "\<not> same_node rhs D" and "\<not> list_ex (\<lambda>t. same_node t D) targets"
  shows "\<not> list_ex (\<lambda>t. same_node t D) (map (subst_expr U rhs) targets)"
proof
  assume "list_ex (\<lambda>t. same_node t D) (map (subst_expr U rhs) targets)"
  then obtain t where t: "t \<in> set targets" "same_node (subst_expr U rhs t) D"
    unfolding list_ex_iff by auto
  from same_node_subst [OF assms(1) t(2)] t(1) assms(2) show False
    unfolding list_ex_iff by blast
qed

text \<open>\<^verbatim>\<open>list.remove\<close> takes out the first occurrence and nothing else.\<close>

lemma remove_node_first:
  "list_ex (\<lambda>t. same_node t D) ts \<Longrightarrow>
   remove_node D ts
     = takeWhile (\<lambda>t. \<not> same_node t D) ts @ tl (dropWhile (\<lambda>t. \<not> same_node t D) ts)"
  by (induction ts) auto

lemma lr_untouched:
  "\<not> mentions_stmt U s \<Longrightarrow> \<not> assigns_to D s \<Longrightarrow> lr_stmt U D capture s = Inr (s, capture)"
  "\<not> list_ex (mentions_stmt U) ss \<Longrightarrow> \<not> list_ex (assigns_to D) ss \<Longrightarrow>
   lr_stmts U D capture ss = Inr (ss, capture)"
proof (induction U D capture s and U D capture ss rule: lr_stmt_lr_stmts.induct)
  case (3 U D capture targets val)
  then show ?case
    by (simp add: present_untouched lr_visit_untouched lr_visit_Assign_def)
next
  case (4 U D capture f args body)
  then show ?case by (simp add: present_untouched)
next
  case (9 U D capture t it body orelse md)
  then show ?case by (simp add: lr_visit_untouched)
next
  case (10 U D capture t body orelse)
  then show ?case by (simp add: lr_visit_untouched)
qed (simp_all add: present_untouched lr_visit_untouched)

lemma lr_subst:
  "capture = Some rhs \<Longrightarrow> \<not> same_node rhs D \<Longrightarrow> \<not> assigns_to D s \<Longrightarrow>
   lr_stmt U D capture s = Inr (subst_stmt U rhs s, Some rhs)"
  "capture = Some rhs \<Longrightarrow> \<not> same_node rhs D \<Longrightarrow> \<not> list_ex (assigns_to D) ss \<Longrightarrow>
   lr_stmts U D capture ss = Inr (map (subst_stmt U rhs) ss, Some rhs)"
proof (induction U D capture s and U D capture ss rule: lr_stmt_lr_stmts.induct)
  case (3 U D capture targets val)
  from "3.prems" have "\<not> list_ex (\<lambda>t. same_node t D) (map (subst_expr U rhs) targets)"
    by (intro targets_subst) simp_all
  with "3.prems" show ?case
    by (simp add: present_subst lr_visit_subst lr_visit_Assign_def)
next
  case (4 U D capture f args body)
  then show ?case by (simp add: present_subst)
next
  case (9 U D capture t it body orelse md)
  then show ?case by (simp add: lr_visit_subst)
next
  case (10 U D capture t body orelse)
  then show ?case by (simp add: lr_visit_subst)
qed (simp_all add: present_subst lr_visit_subst)

lemma lr_stmts_append:
  "lr_stmts U D capture (xs @ ys) =
     (case lr_stmts U D capture xs of
        Inl e \<Rightarrow> Inl e
      | Inr (xs', capture') \<Rightarrow>
          (case lr_stmts U D capture' ys of
             Inl e \<Rightarrow> Inl e
           | Inr (ys', capture'') \<Rightarrow> Inr (xs' @ ys', capture'')))"
  by (induction xs arbitrary: capture) (auto split: sum.splits prod.splits)

lemma forwards_rhs:
  "forwards U D rhs s s' \<Longrightarrow> \<not> same_node rhs D"
  "forwards_list U D rhs ss ss' \<Longrightarrow> \<not> same_node rhs D"
  by (induction rule: forwards_forwards_list.inducts)

text \<open>The remover on a function in which the definition is forwarded, at any depth.\<close>

lemma lr_forwards:
  "forwards U D rhs s s' \<Longrightarrow> lr_stmt U D None s = Inr (s', Some rhs)"
  "forwards_list U D rhs ss ss' \<Longrightarrow> lr_stmts U D None ss = Inr (ss', Some rhs)"
proof (induction rule: forwards_forwards_list.inducts)
  case (in_Assign D targets U rhs)
  then show ?case
    by (simp add: present_untouched lr_visit_untouched lr_visit_Assign_def remove_node_first)
next
  case (in_FunctionDef U args D rhs body body' f)
  then show ?case by (simp add: present_untouched)
next
  case (in_For_body U t it D rhs body body' orelse md)
  from forwards_rhs(2) [OF in_For_body.hyps(3)] in_For_body.hyps(4)
  have "lr_stmts U D (Some rhs) orelse = Inr (map (subst_stmt U rhs) orelse, Some rhs)"
    by (intro lr_subst(2)) simp_all
  with in_For_body show ?case by (simp add: lr_visit_untouched)
next
  case (in_For_orelse U t it body D rhs orelse orelse' md)
  from in_For_orelse.hyps(3,4) have "lr_stmts U D None body = Inr (body, None)"
    by (rule lr_untouched(2))
  with in_For_orelse show ?case by (simp add: lr_visit_untouched)
next
  case (in_If_body U t D rhs body body' orelse)
  from forwards_rhs(2) [OF in_If_body.hyps(2)] in_If_body.hyps(3)
  have "lr_stmts U D (Some rhs) orelse = Inr (map (subst_stmt U rhs) orelse, Some rhs)"
    by (intro lr_subst(2)) simp_all
  with in_If_body show ?case by (simp add: lr_visit_untouched)
next
  case (in_If_orelse U t body D rhs orelse orelse')
  from in_If_orelse.hyps(2,3) have "lr_stmts U D None body = Inr (body, None)"
    by (rule lr_untouched(2))
  with in_If_orelse show ?case by (simp add: lr_visit_untouched)
next
  case (in_list U pre D rhs s s' post)
  have 1: "lr_stmts U D None pre = Inr (pre, None)"
    using in_list.hyps(1,2) by (rule lr_untouched(2))
  from forwards_rhs(1) [OF in_list.hyps(3)] in_list.hyps(4)
  have 3: "lr_stmts U D (Some rhs) post = Inr (map (subst_stmt U rhs) post, Some rhs)"
    by (intro lr_subst(2)) simp_all
  have 4: "lr_stmts U D None (s # post) = Inr (s' # map (subst_stmt U rhs) post, Some rhs)"
    by (simp add: in_list.IH 3 del: lr_stmt.simps)
  show ?case
    by (simp add: lr_stmts_append 1 4 del: lr_stmt.simps lr_stmts.simps)
qed


lemma fs_eligible_entry:
  "fs_eligible lazyness_analysis literals name g \<Longrightarrow> lazyness_analysis name \<noteq> None"
  by (cases "lazyness_analysis name") (auto simp: fs_eligible_def finite_lazyness_def)

text \<open>
  Claim C3, amended. When forward substitution fires for a variable, and the chain's \<^verbatim>\<open>D\<close>
  node is a target of an assignment somewhere in the function, at any depth, with none of
  the chain's \<^verbatim>\<open>U\<close> nodes visited before that assignment or in it, and no other assignment
  to the \<^verbatim>\<open>D\<close> node: every \<^verbatim>\<open>U\<close> occurrence after the assignment is replaced by the
  right-hand-side node itself (the same node at every use site, not a copy); the first
  occurrence of the \<^verbatim>\<open>D\<close> node is taken out of the assignment's target list, the other
  targets staying in their order; and when the assignment has exactly one target, the
  statement is replaced by \<^verbatim>\<open>Pass\<close> at its place in the statement sequence. The loop of
  \<^verbatim>\<open>visit_FunctionDef\<close> goes on with the function so rewritten.
\<close>

theorem forward_substitution_replaces_uses:
  assumes "fs_eligible lazyness_analysis literals name g"
    and "\<not> define_without_ctx g"
    and "forwards (occurrences g ActU) (hd (occurrences g ActD)) rhs node node'"
  shows "lr_stmt (occurrences g ActU) (hd (occurrences g ActD)) None node = Inr (node', Some rhs)
         \<and> fs_visit_FunctionDef ((name, g) # items) lazyness_analysis literals node
           = fs_visit_FunctionDef items lazyness_analysis literals node'"
proof -
  from assms(3) have 1: "lr_stmt (occurrences g ActU) (hd (occurrences g ActD)) None node
      = Inr (node', Some rhs)"
    by (rule lr_forwards(1))
  from assms(1) have 2: "lazyness_analysis name \<noteq> None" by (rule fs_eligible_entry)
  have "fs_step lazyness_analysis literals (name, g) node = Inr node'"
    unfolding fs_step_cases using assms(1,2) 1 2 by simp
  with 1 show ?thesis by simp
qed

text \<open>
  \<^verbatim>\<open>def foo(c):\<close> \<^verbatim>\<open>if c: a = b = 2; print a\<close> and then \<^verbatim>\<open>print a + a\<close>: the definition is in the
  body of the \<^verbatim>\<open>if\<close>, it keeps its other target, and the three uses, in the \<^verbatim>\<open>if\<close> and after
  it, get the node of the literal.
\<close>

theorem forward_substitution_replaces_uses_witness:
  "fs_visit_FunctionDef
     [(''a'', [UDNode (Name (Nid 2) ''a'' Store) ActD, UDNode (Name (Nid 5) ''a'' Load) ActU,
               UDNode (Name (Nid 7) ''a'' Load) ActU, UDNode (Name (Nid 8) ''a'' Load) ActU])]
     [''a'' \<mapsto> 3] {''a''}
     (FunctionDef ''foo'' [Name (Nid 0) ''c'' Param]
        [If (Name (Nid 1) ''c'' Load)
           [Assign [Name (Nid 2) ''a'' Store, Name (Nid 3) ''b'' Store] (Num (Nid 4) (PInt 2)),
            Print [Name (Nid 5) ''a'' Load]]
           [],
         Print [BinOp (Nid 6) (Name (Nid 7) ''a'' Load) Add (Name (Nid 8) ''a'' Load)]])
   = Inr (FunctionDef ''foo'' [Name (Nid 0) ''c'' Param]
        [If (Name (Nid 1) ''c'' Load)
           [Assign [Name (Nid 3) ''b'' Store] (Num (Nid 4) (PInt 2)),
            Print [Num (Nid 4) (PInt 2)]]
           [],
         Print [BinOp (Nid 6) (Num (Nid 4) (PInt 2)) Add (Num (Nid 4) (PInt 2))]])"
proof -
  let ?D = "Name (Nid 2) ''a'' Store"
  let ?U = "[Name (Nid 5) ''a'' Load, Name (Nid 7) ''a'' Load, Name (Nid 8) ''a'' Load]"
  let ?g = "[UDNode ?D ActD, UDNode (Name (Nid 5) ''a'' Load) ActU,
             UDNode (Name (Nid 7) ''a'' Load) ActU, UDNode (Name (Nid 8) ''a'' Load) ActU]"
  let ?rhs = "Num (Nid 4) (PInt 2)"
  let ?b = "Name (Nid 3) ''b'' Store"
  let ?c = "Name (Nid 1) ''c'' Load"
  let ?p = "Print [BinOp (Nid 6) (Name (Nid 7) ''a'' Load) Add (Name (Nid 8) ''a'' Load)]"
  have e: "fs_eligible [''a'' \<mapsto> 3] {''a''} ''a'' ?g"
    by (simp add: fs_eligible_def finite_lazyness_Some)
  have w: "\<not> define_without_ctx ?g" by (simp add: define_without_ctx_def)
  have o: "occurrences ?g ActU = ?U" "hd (occurrences ?g ActD) = ?D"
    by (simp_all add: occurrences_def)
  have f1: "forwards ?U ?D ?rhs (Assign [?D, ?b] ?rhs) (Assign [?b] ?rhs)"
    using forwards_forwards_list.in_Assign [of ?D "[?D, ?b]" ?U ?rhs] by simp
  have f2: "forwards_list ?U ?D ?rhs
      [Assign [?D, ?b] ?rhs, Print [Name (Nid 5) ''a'' Load]] [Assign [?b] ?rhs, Print [?rhs]]"
    using forwards_forwards_list.in_list [of ?U "[]" ?D ?rhs _ _ "[Print [Name (Nid 5) ''a'' Load]]",
        OF _ _ f1] by simp
  have f3: "forwards ?U ?D ?rhs
      (If ?c [Assign [?D, ?b] ?rhs, Print [Name (Nid 5) ''a'' Load]] [])
      (If ?c [Assign [?b] ?rhs, Print [?rhs]] [])"
    using forwards_forwards_list.in_If_body [OF _ f2, of ?c "[]"] by simp
  have f4: "forwards_list ?U ?D ?rhs
      [If ?c [Assign [?D, ?b] ?rhs, Print [Name (Nid 5) ''a'' Load]] [], ?p]
      [If ?c [Assign [?b] ?rhs, Print [?rhs]] [], Print [BinOp (Nid 6) ?rhs Add ?rhs]]"
    using forwards_forwards_list.in_list [of ?U "[]" ?D ?rhs _ _ "[?p]", OF _ _ f3] by simp
  have f5: "forwards ?U ?D ?rhs
      (FunctionDef ''foo'' [Name (Nid 0) ''c'' Param]
         [If ?c [Assign [?D, ?b] ?rhs, Print [Name (Nid 5) ''a'' Load]] [], ?p])
      (FunctionDef ''foo'' [Name (Nid 0) ''c'' Param]
         [If ?c [Assign [?b] ?rhs, Print [?rhs]] [], Print [BinOp (Nid 6) ?rhs Add ?rhs]])"
    using forwards_forwards_list.in_FunctionDef [OF _ f4, of "[Name (Nid 0) ''c'' Param]" "''foo''"]
    by simp
  from forward_substitution_replaces_uses [OF e w, unfolded o, OF f5, of "[]"]
  show ?thesis by simp
qed

text \<open>
  A use visited before the assignment, \<^verbatim>\<open>print a; a = 2\<close>: \<^verbatim>\<open>self.capture\<close> is still
  \<^verbatim>\<open>None\<close>, and the use is removed from the list it is in. In \<^verbatim>\<open>a; a = 2\<close> the use is the
  required field of its statement, which loses it.
\<close>

lemma lazy_remover_use_before_definition:
  "lr_stmts [Name (Nid 1) ''a'' Load] (Name (Nid 2) ''a'' Store) None
     [Print [Name (Nid 1) ''a'' Load], Assign [Name (Nid 2) ''a'' Store] (Num (Nid 3) (PInt 2))]
   = Inr ([Print [], Pass], Some (Num (Nid 3) (PInt 2)))"
  "lr_stmts [Name (Nid 1) ''a'' Load] (Name (Nid 2) ''a'' Store) None
     [Expr (Nid 0) (Name (Nid 1) ''a'' Load),
      Assign [Name (Nid 2) ''a'' Store] (Num (Nid 3) (PInt 2))]
   = Inr ([Expr (Nid 0) Deleted, Pass], Some (Num (Nid 3) (PInt 2)))"
  by (simp_all add: lr_visit_Assign_def)

text \<open>
  Claim C3 as stated fails: in the doctest \<^verbatim>\<open>a = 2; print a + a\<close> both uses are replaced by
  the node of the literal \<^verbatim>\<open>2\<close> of the assignment itself, one node at two places, and not by
  deep copies of it.
\<close>

theorem forward_substitution_deep_copy_counterexample:
  "fs_visit_FunctionDef
     [(''a'', [UDNode (Name (Nid 1) ''a'' Store) ActD, UDNode (Name (Nid 4) ''a'' Load) ActU,
               UDNode (Name (Nid 5) ''a'' Load) ActU])]
     [''a'' \<mapsto> 2] {''a''}
     (FunctionDef ''foo'' []
        [Assign [Name (Nid 1) ''a'' Store] (Num (Nid 2) (PInt 2)),
         Print [BinOp (Nid 3) (Name (Nid 4) ''a'' Load) Add (Name (Nid 5) ''a'' Load)]])
   = Inr (FunctionDef ''foo'' []
        [Pass, Print [BinOp (Nid 3) (Num (Nid 2) (PInt 2)) Add (Num (Nid 2) (PInt 2))]])
   \<and> fs_visit_FunctionDef
     [(''a'', [UDNode (Name (Nid 1) ''a'' Store) ActD, UDNode (Name (Nid 4) ''a'' Load) ActU,
               UDNode (Name (Nid 5) ''a'' Load) ActU])]
     [''a'' \<mapsto> 2] {''a''}
     (FunctionDef ''foo'' []
        [Assign [Name (Nid 1) ''a'' Store] (Num (Nid 2) (PInt 2)),
         Print [BinOp (Nid 3) (Name (Nid 4) ''a'' Load) Add (Name (Nid 5) ''a'' Load)]])
   \<noteq> Inr (FunctionDef ''foo'' []
        [Pass, Print [BinOp (Nid 3) (deepcopy (Num (Nid 2) (PInt 2))) Add
                        (deepcopy (Num (Nid 2) (PInt 2)))]])"
  by (simp add: fs_step_def get_def lr_visit_Assign_def Let_def)

section \<open>Idempotence of constant folding\<close>











end
